theory Spec2Isabelle
  imports Complex_Main "HOL-Library.Monad_Syntax"
begin

section \<open>Conventions\<close>

text \<open>
  A \<open>throw\<close> is the \<open>Inl\<close> of a sum. A read past the end of an array gives
  \<open>undefined\<close> in the source; the model reads arrays with \<open>nth_opt\<close>, which gives
  \<open>None\<close> there. Node indices, equation numbers and rotation offsets are \<open>int\<close>.

  The numbers the source computes itself, in the shape functions and in the assembly,
  are IEEE doubles: \<open>jsnum\<close> below, with the rounding of every addition and
  multiplication written out. The Jacobians hand their numbers to a numeric library that
  is not among the sources; there a number is a real, \<open>None\<close> when it is NaN, and the
  theorems about them repeat the expressions of the source without using any identity
  of exact arithmetic.
\<close>

datatype error =
    Fatal string      \<comment> \<open>\<open>throw new Error(msg)\<close>\<close>
  | TypeError         \<comment> \<open>the engine's error on reading a property of \<open>undefined\<close>\<close>

definition nth_opt :: "'a list \<Rightarrow> nat \<Rightarrow> 'a option" where
  "nth_opt xs i = (if i < length xs then Some (xs ! i) else None)"

section \<open>core.utils\<close>

subsection \<open>rotateLeft\<close>

text \<open>JavaScript's \<open>%\<close> on integers: the remainder takes the sign of the dividend.
  The divisor is never zero where the model uses it.\<close>

definition js_rem :: "int \<Rightarrow> int \<Rightarrow> int" where
  "js_rem a b = sgn a * (\<bar>a\<bar> mod \<bar>b\<bar>)"

text \<open>
  \<open>rotateLeft(arr, offset)\<close>. An \<open>undefined\<close> offset (\<open>None\<close>) throws. On the empty
  array \<open>offset % len\<close> is \<open>NaN\<close>, the loop body never runs and the result is empty.
  Otherwise \<open>i = (len + (offset % len)) % len\<close> and \<open>out[j] = arr[(i+j) % len]\<close>.
\<close>

definition rotateLeft :: "'a list \<Rightarrow> int option \<Rightarrow> error + 'a list" where
  "rotateLeft arr offset =
     (case offset of
        None \<Rightarrow> Inl (Fatal ''rotateLeft(): no offset specified.'')
      | Some off \<Rightarrow>
          (let len = int (length arr) in
           if len = 0 then Inr []
           else
             (let i = js_rem (len + js_rem off len) len in
              Inr (map (\<lambda>j. arr ! nat (js_rem (i + int j) len)) [0..<length arr]))))"

definition rotateRight :: "'a list \<Rightarrow> int \<Rightarrow> error + 'a list" where
  "rotateRight arr offset = rotateLeft arr (Some (- offset))"

subsection \<open>minIndex\<close>

text \<open>The accumulator of the reduction: \<open>{value: Infinity, index: -1}\<close> at the start.\<close>

datatype extnum = Infinity | Fin int

record sofar =
  val :: extnum
  index :: int

text \<open>\<open>x < sofar.value\<close> on numbers: everything finite is below \<open>Infinity\<close>.\<close>

fun js_less :: "int \<Rightarrow> extnum \<Rightarrow> bool" where
  "js_less x Infinity = True"
| "js_less x (Fin v) = (x < v)"

text \<open>\<open>_.reduce(vec, f, init)\<close> on an array: a left fold whose callback also gets the index.\<close>

fun reduce_from :: "('s \<Rightarrow> 'a \<Rightarrow> nat \<Rightarrow> 's) \<Rightarrow> nat \<Rightarrow> 'a list \<Rightarrow> 's \<Rightarrow> 's" where
  "reduce_from f i [] s = s"
| "reduce_from f i (x # xs) s = reduce_from f (Suc i) xs (f s x i)"

definition reduce :: "'a list \<Rightarrow> ('s \<Rightarrow> 'a \<Rightarrow> nat \<Rightarrow> 's) \<Rightarrow> 's \<Rightarrow> 's" where
  "reduce vec f init = reduce_from f 0 vec init"

definition minIndex_step :: "sofar \<Rightarrow> int \<Rightarrow> nat \<Rightarrow> sofar" where
  "minIndex_step sofar x i =
     (if js_less x (val sofar) then sofar\<lparr>val := Fin x, index := int i\<rparr> else sofar)"

definition minIndex_step_cmp :: "(int \<Rightarrow> extnum \<Rightarrow> int) \<Rightarrow> sofar \<Rightarrow> int \<Rightarrow> nat \<Rightarrow> sofar" where
  "minIndex_step_cmp cmp sofar x i =
     (if cmp x (val sofar) < 0 then sofar\<lparr>val := Fin x, index := int i\<rparr> else sofar)"

text \<open>\<open>minIndex(vec, cmp)\<close>; \<open>cmp = None\<close> when no comparison function is passed.\<close>

definition minIndex :: "int list \<Rightarrow> (int \<Rightarrow> extnum \<Rightarrow> int) option \<Rightarrow> int" where
  "minIndex vec cmp =
     (case cmp of
        Some c \<Rightarrow> index (reduce vec (minIndex_step_cmp c) \<lparr>val = Infinity, index = - 1\<rparr>)
      | None \<Rightarrow> index (reduce vec minIndex_step \<lparr>val = Infinity, index = - 1\<rparr>))"

subsection \<open>normalizedCell\<close>

definition normalizedCell :: "int list \<Rightarrow> error + int list" where
  "normalizedCell conn = (let offset = minIndex conn None in rotateLeft conn (Some offset))"

section \<open>IEEE doubles\<close>

text \<open>
  A JavaScript number is a double: NaN, an infinity, or a finite value \<open>m * 2^e\<close> with
  \<open>\<bar>m\<bar> < 2^53\<close>, \<open>e \<ge> -1074\<close> and \<open>\<bar>m * 2^e\<bar> < 2^1024\<close>. \<open>Finite m e\<close> stands for
  \<open>m * 2^e\<close>; every operation returns it with \<open>m\<close> odd, or as \<open>Finite 0 0\<close>, so that
  equal values are equal terms. The two zeros of IEEE arithmetic are not told apart:
  the operations of the source that are modelled here (\<open>+\<close>, \<open>-\<close>, \<open>*\<close>, unary
  minus) give equal values for them.
\<close>

datatype jsnum = Finite int int | PosInfinity | NegInfinity | NaN

text \<open>The number of binary digits of a positive integer.\<close>

function bit_length :: "int \<Rightarrow> nat" where
  "bit_length n = (if n \<le> 0 then 0 else Suc (bit_length (n div 2)))"
  by pat_completeness auto
termination
  by (relation "measure nat") auto

declare bit_length.simps [simp del]

text \<open>
  Rounding of the magnitude \<open>n * 2^e\<close> to the nearest double, ties to the even
  mantissa: \<open>k\<close> low bits are dropped, as many as leave 53 bits, or more where the
  exponent would fall below \<open>-1074\<close> (the subnormal range).
\<close>

definition round_mag :: "int \<Rightarrow> int \<Rightarrow> int \<times> int" where
  "round_mag n e =
     (let k = max (int (bit_length n) - 53) (- 1074 - e) in
      if k \<le> 0 then (n, e)
      else
        (let d = 2 ^ nat k; q = n div d; r = n mod d; h = d div 2;
             q' = (if r < h then q else if h < r then q + 1 else if even q then q else q + 1)
         in (q', e + k)))"

text \<open>The representation with an odd mantissa.\<close>

function norm_mag :: "int \<Rightarrow> int \<Rightarrow> int \<times> int" where
  "norm_mag q e = (if q \<le> 0 then (0, 0) else if even q then norm_mag (q div 2) (e + 1) else (q, e))"
  by pat_completeness auto
termination
  by (relation "measure (\<lambda>(q, e). nat q)") auto

declare norm_mag.simps [simp del]

text \<open>The double nearest to the exact value \<open>m * 2^e\<close>; a rounded magnitude of
  \<open>2^1024\<close> or more is an infinity.\<close>

definition round_to :: "int \<Rightarrow> int \<Rightarrow> jsnum" where
  "round_to m e =
     (let (q, e') = round_mag \<bar>m\<bar> e in
      if q \<noteq> 0 \<and> int (bit_length q) + e' > 1024
      then (if m < 0 then NegInfinity else PosInfinity)
      else (let (q'', e'') = norm_mag q e' in Finite (if m < 0 then - q'' else q'') e''))"

fun jneg :: "jsnum \<Rightarrow> jsnum" where
  "jneg (Finite m e) = Finite (- m) e"
| "jneg PosInfinity = NegInfinity"
| "jneg NegInfinity = PosInfinity"
| "jneg NaN = NaN"

fun jadd :: "jsnum \<Rightarrow> jsnum \<Rightarrow> jsnum" where
  "jadd NaN b = NaN"
| "jadd a NaN = NaN"
| "jadd PosInfinity NegInfinity = NaN"
| "jadd NegInfinity PosInfinity = NaN"
| "jadd PosInfinity b = PosInfinity"
| "jadd NegInfinity b = NegInfinity"
| "jadd a PosInfinity = PosInfinity"
| "jadd a NegInfinity = NegInfinity"
| "jadd (Finite m1 e1) (Finite m2 e2) =
     (let e = min e1 e2 in round_to (m1 * 2 ^ nat (e1 - e) + m2 * 2 ^ nat (e2 - e)) e)"

definition jsub :: "jsnum \<Rightarrow> jsnum \<Rightarrow> jsnum" where
  "jsub a b = jadd a (jneg b)"

fun jsign :: "jsnum \<Rightarrow> int" where
  "jsign (Finite m e) = sgn m"
| "jsign PosInfinity = 1"
| "jsign NegInfinity = - 1"
| "jsign NaN = 0"

fun jmul :: "jsnum \<Rightarrow> jsnum \<Rightarrow> jsnum" where
  "jmul NaN b = NaN"
| "jmul a NaN = NaN"
| "jmul (Finite m1 e1) (Finite m2 e2) = round_to (m1 * m2) (e1 + e2)"
| "jmul a b =
     (let s = jsign a * jsign b in
      if s = 0 then NaN else if 0 < s then PosInfinity else NegInfinity)"

text \<open>The literals of the source: \<open>0\<close>, \<open>1\<close>, \<open>0.5\<close>, \<open>0.25\<close>, \<open>0.125\<close>.\<close>

definition js_0 :: jsnum where "js_0 = Finite 0 0"
definition js_1 :: jsnum where "js_1 = Finite 1 0"
definition js_0_5 :: jsnum where "js_0_5 = Finite 1 (- 1)"
definition js_0_25 :: jsnum where "js_0_25 = Finite 1 (- 2)"
definition js_0_125 :: jsnum where "js_0_125 = Finite 1 (- 3)"

text \<open>The double of an integer literal.\<close>

definition js_int :: "int \<Rightarrow> jsnum" where
  "js_int n = round_to n 0"

text \<open>\<open>arr[i]\<close> used as a number: \<open>undefined\<close> makes every sum and product NaN.\<close>

definition read_num :: "jsnum list \<Rightarrow> nat \<Rightarrow> jsnum" where
  "read_num arr i = (case nth_opt arr i of Some v \<Rightarrow> v | None \<Rightarrow> NaN)"

text \<open>The real number a finite double stands for.\<close>

fun value_of :: "jsnum \<Rightarrow> real option" where
  "value_of (Finite m e) =
     Some (if 0 \<le> e then of_int m * 2 ^ nat e else of_int m / 2 ^ nat (- e))"
| "value_of PosInfinity = None"
| "value_of NegInfinity = None"
| "value_of NaN = None"

text \<open>The same value with a real power of two, for the proofs; and the finite doubles of
  magnitude at most \<open>2^t\<close>.\<close>

definition rval :: "int \<Rightarrow> int \<Rightarrow> real" where
  "rval m e = of_int m * 2 powr of_int e"

definition mag_le :: "jsnum \<Rightarrow> int \<Rightarrow> bool" where
  "mag_le a t = (\<exists>m e. a = Finite m e \<and> \<bar>rval m e\<bar> \<le> 2 powr of_int t)"

text \<open>The exact sum of a list of doubles, when all of them are finite; and their sum
  in double arithmetic, added from the left.\<close>

fun exact_sum :: "jsnum list \<Rightarrow> real option" where
  "exact_sum [] = Some 0"
| "exact_sum (x # xs) = do { v \<leftarrow> value_of x; s \<leftarrow> exact_sum xs; Some (v + s) }"

definition double_sum :: "jsnum list \<Rightarrow> jsnum" where
  "double_sum xs = foldl jadd js_0 xs"

text \<open>The doubles of a list are all finite and their exact sum is within \<open>d\<close> of \<open>c\<close>.\<close>

definition sum_within :: "jsnum list \<Rightarrow> real \<Rightarrow> real \<Rightarrow> bool" where
  "sum_within xs c d = (case exact_sum xs of None \<Rightarrow> False | Some s \<Rightarrow> \<bar>s - c\<bar> \<le> d)"

section \<open>Numbers of the Jacobians\<close>

type_synonym num = "real option"

definition nsub :: "num \<Rightarrow> num \<Rightarrow> num" where
  "nsub a b = do { x \<leftarrow> a; y \<leftarrow> b; Some (x - y) }"

definition nmul :: "num \<Rightarrow> num \<Rightarrow> num" where
  "nmul a b = do { x \<leftarrow> a; y \<leftarrow> b; Some (x * y) }"

section \<open>The numeric library\<close>

type_synonym vector = "real list"
type_synonym matrix = "real list list"

text \<open>
  Modelled from the spec: \<open>core.numeric\<close> and \<open>feutils\<close> are not among the sources.
  The spec names their operations (matrix product, transpose, determinant, Euclidean
  norm, column extraction, skew-symmetric matrix) and takes them as given. The
  definitions below are these operations on well-shaped arguments; what the library
  does with ragged or mismatched arguments is not modelled, and no theorem below
  depends on it. \<open>det\<close> and \<open>skewmat\<close> and the product \<open>mul\<close> of two matrices
  stay parameters of the functions that call them.
\<close>

definition size_m :: "'a list list \<Rightarrow> nat list" where
  "size_m A = (case A of [] \<Rightarrow> [0] | r # _ \<Rightarrow> [length A, length r])"

definition transpose_m :: "'a list list \<Rightarrow> 'a list list" where
  "transpose_m A = List.transpose A"

definition dot_vv :: "vector \<Rightarrow> vector \<Rightarrow> real" where
  "dot_vv u v = sum_list (map2 (*) u v)"

definition dot :: "matrix \<Rightarrow> matrix \<Rightarrow> matrix" where
  "dot A B = map (\<lambda>row. map (dot_vv row) (transpose_m B)) A"

definition dot_mv :: "matrix \<Rightarrow> vector \<Rightarrow> vector" where
  "dot_mv A v = map (\<lambda>row. dot_vv row v) A"

definition norm_v :: "vector \<Rightarrow> real" where
  "norm_v v = sqrt (dot_vv v v)"

definition nthColumn :: "matrix \<Rightarrow> nat \<Rightarrow> vector" where
  "nthColumn A j = map (\<lambda>row. row ! j) A"

text \<open>\<open>mul(A, s)\<close> with a scalar \<open>s\<close>: every entry times \<open>s\<close>.\<close>

definition mul_scalar :: "jsnum list list \<Rightarrow> jsnum \<Rightarrow> jsnum list list" where
  "mul_scalar A s = map (map (\<lambda>a. jmul a s)) A"

text \<open>The skew-symmetric matrix of a vector of three components, at which the
  theorems are evaluated; the functions below take \<open>skewmat\<close> as a parameter.\<close>

definition skewmat3 :: "vector \<Rightarrow> error + matrix" where
  "skewmat3 v =
     (case v of
        [a, b, c] \<Rightarrow> Inr [[0, - c, b], [c, 0, - a], [- b, a, 0]]
      | _ \<Rightarrow> Inl (Fatal ''skewmat: not a vector of three components''))"

section \<open>geometry.topology\<close>

text \<open>
  Modelled from the spec: \<open>geometry.topology\<close> is not among the sources. A Topology is
  known here by what \<open>GCellSet\<close> asks of it: its manifold dimension, the cell size in
  each dimension and its maximal cells. \<open>hypercube\<close>, \<open>normalized\<close> and \<open>equals\<close>
  are parameters of the functions that call them.
\<close>

record Topology =
  getDim :: int
  getCellSizeInDim :: "int \<Rightarrow> int"
  getMaxCells :: "int list list"

section \<open>gcellset\<close>

subsection \<open>Options and instances\<close>

text \<open>An argument that should be an instance of a class: absent or falsy, truthy but
  of another kind, or an instance.\<close>

datatype 'a arg = Absent | Other | Is 'a

text \<open>\<open>otherDimension\<close>: a number, or a function of connectivity, shape values and
  coordinates. An argument the caller leaves out is \<open>undefined\<close>: \<open>None\<close>.\<close>

datatype otherdim =
    Scalar real
  | Function "int list option \<Rightarrow> matrix option \<Rightarrow> matrix option \<Rightarrow> real"

record GCellSetInitOption =
  opt_topology :: "Topology arg"
  opt_conn :: "int list list option"
  opt_otherDimension :: "otherdim option"   \<comment> \<open>\<open>None\<close>: neither a number nor a function\<close>
  opt_axisSymm :: "bool option"             \<comment> \<open>\<open>None\<close>: not assigned; else its truthiness\<close>

text \<open>The concrete element types of the source.\<close>

datatype celltype = P1 | L2 | Q4 | H8

fun dim_cell :: "celltype \<Rightarrow> int" where
  "dim_cell P1 = 0"
| "dim_cell L2 = 1"
| "dim_cell Q4 = 2"
| "dim_cell H8 = 3"

fun cellSize :: "celltype \<Rightarrow> int" where
  "cellSize P1 = 1"
| "cellSize L2 = 2"
| "cellSize Q4 = 4"
| "cellSize H8 = 8"

fun type_name :: "celltype \<Rightarrow> string" where
  "type_name P1 = ''P1''"
| "type_name L2 = ''L2''"
| "type_name Q4 = ''Q4''"
| "type_name H8 = ''H8''"

record GCellSet =
  celltype_of :: celltype
  f_axisSymm :: bool
  f_otherDimension :: otherdim
  f_id :: string
  f_topology :: Topology

subsection \<open>The constructors\<close>

text \<open>
  \<open>GCellSet(options)\<close>, run for an instance of concrete type \<open>ct\<close>, so that
  \<open>this.cellSize()\<close> and \<open>this.dim()\<close> are those of \<open>ct\<close>. \<open>newid\<close> is what
  \<open>uuid()\<close> returns.
\<close>

definition GCellSet_new :: "celltype \<Rightarrow> string \<Rightarrow> GCellSetInitOption option \<Rightarrow> error + GCellSet" where
  "GCellSet_new ct newid options =
     (case options of
        None \<Rightarrow> Inl (Fatal ''GCellSet#constructor(options): options is not a valid GCellSetInitOption.'')
      | Some opts \<Rightarrow>
          (case opt_topology opts of
             Is topology \<Rightarrow>
               (let otherDimension = (case opt_otherDimension opts of Some d \<Rightarrow> d | None \<Rightarrow> Scalar 1.0);
                    axisSymm = (case opt_axisSymm opts of Some b \<Rightarrow> b | None \<Rightarrow> False);
                    cellSizeFromTopology = getCellSizeInDim topology (getDim topology);
                    cellSizeShouldBe = cellSize ct
                in if cellSizeFromTopology \<noteq> cellSizeShouldBe
                   then Inl (Fatal ''GCellSet(): cellSize of the topology dismatch.'')
                   else
                     (let dimFromTopology = getDim topology; dimShouldBe = dim_cell ct
                      in if dimFromTopology \<noteq> dimShouldBe
                         then Inl (Fatal ''GCellSet(): dim of the topology dismatch.'')
                         else Inr \<lparr>celltype_of = ct, f_axisSymm = axisSymm,
                                   f_otherDimension = otherDimension, f_id = newid,
                                   f_topology = topology\<rparr>))
           | _ \<Rightarrow> Inl (Fatal ''GCellSet#constructor(options): options is not a valid GCellSetInitOption.'')))"

text \<open>
  \<open>P1(options)\<close>, \<open>L2(options)\<close>, \<open>Q4(options)\<close>, \<open>H8(options)\<close>: the four
  constructors differ in the type name of the message and in the dimension passed to
  \<open>hypercube\<close>. A connectivity, when given, replaces the topology of the options.
\<close>

definition new :: "(int list list \<Rightarrow> int \<Rightarrow> error + Topology) \<Rightarrow> celltype \<Rightarrow> string
    \<Rightarrow> GCellSetInitOption option \<Rightarrow> error + GCellSet" where
  "new hypercube ct newid options =
     (case options of
        None \<Rightarrow> Inl (Fatal (type_name ct @ ''#constructor(options): options is not a valid '' @ type_name ct @ ''InitOption''))
      | Some opts \<Rightarrow>
          if opt_conn opts = None \<and> opt_topology opts = Absent
          then Inl (Fatal (type_name ct @ ''#constructor(options): options is not a valid '' @ type_name ct @ ''InitOption''))
          else
            (case opt_conn opts of
               Some conn \<Rightarrow>
                 (case hypercube conn (dim_cell ct) of
                    Inl e \<Rightarrow> Inl e
                  | Inr t \<Rightarrow> GCellSet_new ct newid (Some (opts\<lparr>opt_topology := Is t\<rparr>)))
             | None \<Rightarrow> GCellSet_new ct newid (Some opts)))"

subsection \<open>Accessors and equality\<close>

definition otherDimension :: "GCellSet \<Rightarrow> int list option \<Rightarrow> matrix option \<Rightarrow> matrix option \<Rightarrow> real" where
  "otherDimension this conn N x =
     (case f_otherDimension this of Function f \<Rightarrow> f conn N x | Scalar d \<Rightarrow> d)"

definition axisSymm :: "GCellSet \<Rightarrow> bool" where
  "axisSymm this = f_axisSymm this"

text \<open>
  \<open>equals(other)\<close>; \<open>other = None\<close> stands for a value that is not a GCellSet.
  \<open>this.otherDimension()\<close> is called without arguments, so a function-valued other
  dimension is applied to three \<open>undefined\<close>s and the results are compared.
\<close>

definition equals :: "(Topology \<Rightarrow> Topology) \<Rightarrow> (Topology \<Rightarrow> Topology \<Rightarrow> bool)
    \<Rightarrow> GCellSet \<Rightarrow> GCellSet option \<Rightarrow> bool" where
  "equals normalized topology_equals this other' =
     (case other' of
        None \<Rightarrow> False
      | Some other \<Rightarrow>
          if type_name (celltype_of this) \<noteq> type_name (celltype_of other)
             \<or> cellSize (celltype_of this) \<noteq> cellSize (celltype_of other)
          then False
          else if axisSymm this \<noteq> axisSymm other
             \<or> otherDimension this None None None \<noteq> otherDimension other None None None
          then False
          else if \<not> topology_equals (normalized (f_topology this)) (normalized (f_topology other))
          then False
          else True)"

subsection \<open>Jacobians\<close>

text \<open>Sequencing of calls that may throw.\<close>

definition bindE :: "error + 'a \<Rightarrow> ('a \<Rightarrow> error + 'b) \<Rightarrow> error + 'b" where
  "bindE m f = (case m of Inl e \<Rightarrow> Inl e | Inr a \<Rightarrow> f a)"

text \<open>\<open>xyz = M[0]\<close> and later \<open>xyz[0]\<close>: reading index 0 of an \<open>undefined\<close> row is a
  TypeError, a missing entry of an existing row is \<open>undefined\<close>.\<close>

definition first_entry :: "vector option \<Rightarrow> error + num" where
  "first_entry xyz = (case xyz of None \<Rightarrow> Inl TypeError | Some row \<Rightarrow> Inr (nth_opt row 0))"

text \<open>\<open>J[i][j]\<close> where row \<open>i\<close> exists.\<close>

definition entry :: "matrix \<Rightarrow> nat \<Rightarrow> nat \<Rightarrow> num" where
  "entry J i j = do { row \<leftarrow> nth_opt J i; nth_opt row j }"

definition GCellSetManifold0_jacobianCurve ::
    "GCellSet \<Rightarrow> int list \<Rightarrow> matrix \<Rightarrow> matrix \<Rightarrow> matrix \<Rightarrow> error + num" where
  "GCellSetManifold0_jacobianCurve this conn N J x =
     (if axisSymm this then
        (let xyz = nth_opt (dot (transpose_m N) x) 0 in
         bindE (first_entry xyz) (\<lambda>r. Inr (nmul (Some (1 * 2 * pi)) r)))
      else Inr (Some (1 * otherDimension this (Some conn) (Some N) (Some x))))"

definition GCellSetManifold0_jacobianSurface ::
    "GCellSet \<Rightarrow> int list \<Rightarrow> matrix \<Rightarrow> matrix \<Rightarrow> matrix \<Rightarrow> error + num" where
  "GCellSetManifold0_jacobianSurface this conn N J x =
     (if axisSymm this then
        (let xyz = nth_opt (dot (transpose_m N) x) 0 in
         bindE (first_entry xyz) (\<lambda>r.
           Inr (nmul (nmul (Some (1 * 2 * pi)) r)
                  (Some (otherDimension this (Some conn) (Some N) (Some x))))))
      else Inr (Some (1 * otherDimension this (Some conn) (Some N) (Some x))))"

text \<open>The volume Jacobian of a point reads the coordinates from \<open>mul(transpose(N), x)\<close>,
  not from \<open>dot\<close>; \<open>mul\<close> of two matrices is a parameter.\<close>

definition GCellSetManifold0_jacobianVolumn ::
    "(matrix \<Rightarrow> matrix \<Rightarrow> matrix) \<Rightarrow> GCellSet \<Rightarrow> int list \<Rightarrow> matrix \<Rightarrow> matrix \<Rightarrow> matrix \<Rightarrow> error + num" where
  "GCellSetManifold0_jacobianVolumn mul this conn N J x =
     (if axisSymm this then
        (let xyz = nth_opt (mul (transpose_m N) x) 0 in
         bindE (GCellSetManifold0_jacobianCurve this conn N J x) (\<lambda>c.
         bindE (first_entry xyz) (\<lambda>r.
           Inr (nmul (nmul (nmul (nmul c (Some 2)) (Some pi)) r)
                  (Some (otherDimension this (Some conn) (Some N) (Some x)))))))
      else
        bindE (GCellSetManifold0_jacobianCurve this conn N J x) (\<lambda>c.
          Inr (nmul c (Some (otherDimension this (Some conn) (Some N) (Some x))))))"




definition GCellSetManifold2_jacobianSurface ::
    "(vector \<Rightarrow> error + matrix) \<Rightarrow> GCellSet \<Rightarrow> int list \<Rightarrow> matrix \<Rightarrow> matrix \<Rightarrow> matrix \<Rightarrow> error + num" where
  "GCellSetManifold2_jacobianSurface skewmat this conn N J x =
     (let tmp = size_m J; sdim = nth_opt tmp 0; ntan = nth_opt tmp 1 in
      if ntan = Some 2 then
        if sdim = ntan then
          Inr (nsub (nmul (entry J 0 0) (entry J 1 1)) (nmul (entry J 1 0) (entry J 0 1)))
        else
          bindE (skewmat (nthColumn J 0)) (\<lambda>jac.
            Inr (Some (norm_v (dot_mv jac (nthColumn J 1)))))
      else Inl (Fatal ''GCellSetManifold2::jacobianSurface(): is not implemented when ntan is not 2''))"


text \<open>\<open>var tmp = size(J), sdim = tmp[0], ntan = tmp[0]\<close>: both names read the number
  of rows.\<close>

definition GCellSetManifold3_jacobianVolumn ::
    "(matrix \<Rightarrow> real) \<Rightarrow> GCellSet \<Rightarrow> int list \<Rightarrow> matrix \<Rightarrow> matrix \<Rightarrow> matrix \<Rightarrow> error + num" where
  "GCellSetManifold3_jacobianVolumn det this conn N J x =
     (let tmp = size_m J; sdim = nth_opt tmp 0; ntan = nth_opt tmp 0 in
      if ntan = Some 3 then Inr (Some (det J))
      else Inl (Fatal ''GCellSetManifold3#jacobianVolumn(): incorrect size of tangents.''))"


subsection \<open>Shape functions\<close>

text \<open>The shape functions compute in double arithmetic, in the order in which the
  source writes the operations: \<open>0.25 * a * b\<close> is \<open>(0.25 * a) * b\<close>, and
  \<open>-a * b\<close> is \<open>(-a) * b\<close>. A missing coordinate \<open>paramCoords[i]\<close> is
  \<open>undefined\<close> and every entry computed from it is NaN.\<close>

definition L2_bfun :: "jsnum list \<Rightarrow> jsnum list list" where
  "L2_bfun paramCoords =
     (let x = read_num paramCoords 0 in
      [ [jmul js_0_5 (jsub js_1 x)],
        [jmul js_0_5 (jadd js_1 x)] ])"

definition L2_bfundpar :: "jsnum list \<Rightarrow> jsnum list list" where
  "L2_bfundpar paramCoords = [ [jneg js_0_5], [js_0_5] ]"

definition Q4_bfun :: "jsnum list \<Rightarrow> jsnum list list" where
  "Q4_bfun paramCoords =
     (let one_minus_xi = jsub js_1 (read_num paramCoords 0);
          one_plus_xi = jadd js_1 (read_num paramCoords 0);
          one_minus_eta = jsub js_1 (read_num paramCoords 1);
          one_plus_eta = jadd js_1 (read_num paramCoords 1)
      in [ [jmul (jmul js_0_25 one_minus_xi) one_minus_eta],
           [jmul (jmul js_0_25 one_plus_xi) one_minus_eta],
           [jmul (jmul js_0_25 one_plus_xi) one_plus_eta],
           [jmul (jmul js_0_25 one_minus_xi) one_plus_eta] ])"

definition Q4_bfundpar :: "jsnum list \<Rightarrow> jsnum list list" where
  "Q4_bfundpar paramCoords =
     (let xi = read_num paramCoords 0; eta = read_num paramCoords 1 in
      [ [jmul (jneg (jsub js_1 eta)) js_0_25, jmul (jneg (jsub js_1 xi)) js_0_25],
        [jmul (jsub js_1 eta) js_0_25, jmul (jneg (jadd js_1 xi)) js_0_25],
        [jmul (jadd js_1 eta) js_0_25, jmul (jadd js_1 xi) js_0_25],
        [jmul (jneg (jadd js_1 eta)) js_0_25, jmul (jsub js_1 xi) js_0_25] ])"

definition H8_bfun :: "jsnum list \<Rightarrow> jsnum list list" where
  "H8_bfun paramCoords =
     (let one_minus_xi = jsub js_1 (read_num paramCoords 0);
          one_minus_eta = jsub js_1 (read_num paramCoords 1);
          one_minus_theta = jsub js_1 (read_num paramCoords 2);
          one_plus_xi = jadd js_1 (read_num paramCoords 0);
          one_plus_eta = jadd js_1 (read_num paramCoords 1);
          one_plus_theta = jadd js_1 (read_num paramCoords 2)
      in [ [jmul (jmul (jmul js_0_125 one_minus_xi) one_minus_eta) one_minus_theta],
           [jmul (jmul (jmul js_0_125 one_plus_xi) one_minus_eta) one_minus_theta],
           [jmul (jmul (jmul js_0_125 one_plus_xi) one_plus_eta) one_minus_theta],
           [jmul (jmul (jmul js_0_125 one_minus_xi) one_plus_eta) one_minus_theta],
           [jmul (jmul (jmul js_0_125 one_minus_xi) one_minus_eta) one_plus_theta],
           [jmul (jmul (jmul js_0_125 one_plus_xi) one_minus_eta) one_plus_theta],
           [jmul (jmul (jmul js_0_125 one_plus_xi) one_plus_eta) one_plus_theta],
           [jmul (jmul (jmul js_0_125 one_minus_xi) one_plus_eta) one_plus_theta] ])"

definition H8_bfundpar :: "jsnum list \<Rightarrow> jsnum list list" where
  "H8_bfundpar paramCoords =
     (let one_minus_xi = jsub js_1 (read_num paramCoords 0);
          one_minus_eta = jsub js_1 (read_num paramCoords 1);
          one_minus_theta = jsub js_1 (read_num paramCoords 2);
          one_plus_xi = jadd js_1 (read_num paramCoords 0);
          one_plus_eta = jadd js_1 (read_num paramCoords 1);
          one_plus_theta = jadd js_1 (read_num paramCoords 2);
          val =
            [ [ jmul (jneg one_minus_eta) one_minus_theta,
                jmul one_minus_eta one_minus_theta,
                jmul one_plus_eta one_minus_theta,
                jmul (jneg one_plus_eta) one_minus_theta,
                jmul (jneg one_minus_eta) one_plus_theta,
                jmul one_minus_eta one_plus_theta,
                jmul one_plus_eta one_plus_theta,
                jmul (jneg one_plus_eta) one_plus_theta ],
              [ jmul (jneg one_minus_xi) one_minus_theta,
                jmul (jneg one_plus_xi) one_minus_theta,
                jmul one_plus_xi one_minus_theta,
                jmul one_minus_xi one_minus_theta,
                jmul (jneg one_minus_xi) one_plus_theta,
                jmul (jneg one_plus_xi) one_plus_theta,
                jmul one_plus_xi one_plus_theta,
                jmul one_minus_xi one_plus_theta ],
              [ jmul (jneg one_minus_xi) one_minus_eta,
                jmul (jneg one_plus_xi) one_minus_eta,
                jmul (jneg one_plus_xi) one_plus_eta,
                jmul (jneg one_minus_xi) one_plus_eta,
                jmul one_minus_xi one_minus_eta,
                jmul one_plus_xi one_minus_eta,
                jmul one_plus_xi one_plus_eta,
                jmul one_minus_xi one_plus_eta ] ]
      in mul_scalar (transpose_m val) js_0_125)"

text \<open>The entries of a column vector, and column \<open>j\<close> of a matrix.\<close>

definition entries :: "jsnum list list \<Rightarrow> jsnum list" where
  "entries A = concat A"

definition column :: "jsnum list list \<Rightarrow> nat \<Rightarrow> jsnum list" where
  "column A j = map (\<lambda>row. read_num row j) A"

section \<open>system.vector\<close>

subsection \<open>SparseVector\<close>

text \<open>
  Modelled from the spec: \<open>SparseVector\<close> of \<open>core.numeric\<close> is not among the sources.
  It is a vector of a given dimension whose positions are zero until they are set;
  \<open>at\<close> reads a position, \<open>set_\<close> writes one and \<open>toFull\<close> lists the positions
  \<open>0 .. dim - 1\<close>. What it does with an index outside that range is not known; the
  theorems below keep the equation numbers within it.
\<close>

record SparseVector =
  sv_dim :: nat
  sv_entries :: "int \<Rightarrow> jsnum"

definition SparseVector_new :: "nat \<Rightarrow> SparseVector" where
  "SparseVector_new d = \<lparr>sv_dim = d, sv_entries = (\<lambda>_. js_0)\<rparr>"

definition sv_at :: "SparseVector \<Rightarrow> int \<Rightarrow> jsnum" where
  "sv_at sv idx = sv_entries sv idx"

definition sv_set :: "SparseVector \<Rightarrow> int \<Rightarrow> jsnum \<Rightarrow> SparseVector" where
  "sv_set sv idx v = sv\<lparr>sv_entries := (sv_entries sv)(idx := v)\<rparr>"

definition sv_toFull :: "SparseVector \<Rightarrow> jsnum list" where
  "sv_toFull sv = map (\<lambda>i. sv_entries sv (int i)) [0..<sv_dim sv]"

subsection \<open>ElementVector and the sources of a SparseSystemVector\<close>

record ElementVector =
  vector :: "jsnum list"
  eqnums :: "int list"

text \<open>
  An iterator is an object with \<open>hasNext\<close> and \<open>next\<close>. The model is the iterator of a
  finite sequence: what is left of it, and how many times \<open>next\<close> has been called.
\<close>

record iterator =
  remaining :: "ElementVector list"
  pulls :: nat

definition hasNext :: "iterator \<Rightarrow> bool" where
  "hasNext it = (remaining it \<noteq> [])"

definition next_ev :: "iterator \<Rightarrow> ElementVector \<times> iterator" where
  "next_ev it = (hd (remaining it), it\<lparr>remaining := tl (remaining it), pulls := Suc (pulls it)\<rparr>)"

definition iteratorFromList :: "ElementVector list \<Rightarrow> iterator" where
  "iteratorFromList lst = \<lparr>remaining = lst, pulls = 0\<rparr>"

datatype evsource =
    EvArray "ElementVector list"
  | EvIterator iterator
  | EvOther                      \<comment> \<open>neither an array nor an iterator\<close>

record SparseSystemVector =
  f_dim :: nat
  f_evs :: evsource
  f_sparseVector :: "SparseVector option"

definition SparseSystemVector_new :: "nat \<Rightarrow> evsource \<Rightarrow> SparseSystemVector" where
  "SparseSystemVector_new d elementVectors =
     \<lparr>f_dim = d, f_evs = elementVectors, f_sparseVector = None\<rparr>"

subsection \<open>Assembly\<close>

text \<open>The body of \<open>ens.forEach(function(en, i) { ... })\<close>; \<open>was + val\<close> is an addition
  of doubles, NaN when \<open>vec[i]\<close> is \<open>undefined\<close>.\<close>

definition scatter_step :: "jsnum list \<Rightarrow> SparseVector \<Rightarrow> int \<Rightarrow> nat \<Rightarrow> SparseVector" where
  "scatter_step vec dest en i =
     (if en \<noteq> 0 then
        (let val = read_num vec i; idx = en - 1; was = sv_at dest idx
         in sv_set dest idx (jadd was val))
      else dest)"

definition scatter :: "ElementVector \<Rightarrow> SparseVector \<Rightarrow> SparseVector" where
  "scatter ev dest = (let vec = vector ev; ens = eqnums ev in reduce_from (scatter_step vec) 0 ens dest)"

text \<open>The loop \<open>while (sources.hasNext()) { ev = sources.next(); ... }\<close>.\<close>

function assemble_loop :: "iterator \<Rightarrow> SparseVector \<Rightarrow> iterator \<times> SparseVector" where
  "assemble_loop sources dest =
     (if hasNext sources then
        (let (ev, sources') = next_ev sources in assemble_loop sources' (scatter ev dest))
      else (sources, dest))"
  by pat_completeness auto
termination
  by (relation "measure (\<lambda>(sources, dest). length (remaining sources))")
     (auto simp: hasNext_def next_ev_def)

text \<open>
  \<open>_assemble_\<close>: the new state of the instance, or the error. An array is read through
  a fresh iterator and stays as it is; an iterator held by the instance is consumed.
\<close>

definition assemble :: "SparseSystemVector \<Rightarrow> error + SparseSystemVector" where
  "assemble this =
     (let dest = SparseVector_new (f_dim this) in
      case f_evs this of
        EvIterator sources \<Rightarrow>
          (let (sources', dest') = assemble_loop sources dest
           in Inr (this\<lparr>f_evs := EvIterator sources', f_sparseVector := Some dest'\<rparr>))
      | EvArray lst \<Rightarrow>
          (let (sources', dest') = assemble_loop (iteratorFromList lst) dest
           in Inr (this\<lparr>f_sparseVector := Some dest'\<rparr>))
      | EvOther \<Rightarrow> Inl (Fatal ''SparseSystemVector::_assemble_: evs must be a iterator or array.''))"

text \<open>\<open>sparseVector()\<close> returns the field, which is \<open>null\<close> (\<open>None\<close>) only before the
  first assembly; \<open>toFull()\<close> calls a method of what it returns.\<close>

definition sparseVector :: "SparseSystemVector \<Rightarrow> error + SparseVector option \<times> SparseSystemVector" where
  "sparseVector this =
     (if f_sparseVector this = None
      then bindE (assemble this) (\<lambda>this'. Inr (f_sparseVector this', this'))
      else Inr (f_sparseVector this, this))"

definition toFull :: "SparseSystemVector \<Rightarrow> error + jsnum list \<times> SparseSystemVector" where
  "toFull this =
     bindE (sparseVector this) (\<lambda>(res, this').
       case res of None \<Rightarrow> Inl TypeError | Some sv \<Rightarrow> Inr (sv_toFull sv, this'))"

text \<open>
  The assembled value at position \<open>q\<close> as the specification words it: the entries
  \<open>vector[i]\<close> whose equation number \<open>eqnums[i]\<close> is not 0 and names position \<open>q\<close>
  (\<open>eqnums[i] - 1 = q\<close>), taken in the order of the element vectors and of their
  indices, and added one after the other to 0.
\<close>

definition contributions :: "ElementVector \<Rightarrow> int \<Rightarrow> jsnum list" where
  "contributions ev q =
     map (\<lambda>(en, i). read_num (vector ev) i)
       (filter (\<lambda>(en, i). en \<noteq> 0 \<and> en - 1 = q) (zip (eqnums ev) [0..<length (eqnums ev)]))"

definition assembled_at :: "ElementVector list \<Rightarrow> int \<Rightarrow> jsnum" where
  "assembled_at evs q = foldl jadd js_0 (concat (map (\<lambda>ev. contributions ev q) evs))"

section \<open>Sample data\<close>

text \<open>Concrete instances at which the theorems below are evaluated: a topology of the
  hypercube family (cell size \<open>2\<^sup>k\<close> in dimension \<open>k\<close>), a GCellSet over it, and the
  shape values and coordinates of a quadrilateral evaluated at its first node.\<close>

definition sample_topology :: "int \<Rightarrow> int list list \<Rightarrow> Topology" where
  "sample_topology d cells = \<lparr>getDim = d, getCellSizeInDim = (\<lambda>k. 2 ^ nat k), getMaxCells = cells\<rparr>"

definition sample_hypercube :: "int list list \<Rightarrow> int \<Rightarrow> error + Topology" where
  "sample_hypercube conn d = Inr (sample_topology d conn)"

definition sample_gcellset :: "celltype \<Rightarrow> bool \<Rightarrow> otherdim \<Rightarrow> GCellSet" where
  "sample_gcellset ct axi od =
     \<lparr>celltype_of = ct, f_axisSymm = axi, f_otherDimension = od, f_id = ''sample'',
      f_topology = sample_topology (dim_cell ct) [[0, 1, 2, 3]]\<rparr>"

definition sample_N :: matrix where
  "sample_N = [[1], [0], [0], [0]]"

definition sample_x :: matrix where
  "sample_x = [[1, 0], [0, 0], [0, 0], [0, 0]]"

section \<open>Properties of core.utils\<close>

lemma js_rem_nonneg: "0 \<le> a \<Longrightarrow> 0 < b \<Longrightarrow> js_rem a b = a mod b"
  by (simp add: js_rem_def sgn_if)

lemma js_rem_neg: "a < 0 \<Longrightarrow> 0 < b \<Longrightarrow> js_rem a b = - ((- a) mod b)"
  by (simp add: js_rem_def sgn_if)

lemma rotateLeft_start:
  assumes "0 < len"
  shows "js_rem (len + js_rem off len) len = off mod len"
proof (cases "0 \<le> off")
  case True
  then have "js_rem off len = off mod len"
    using assms by (simp add: js_rem_nonneg)
  moreover have "0 \<le> len + off mod len"
    using assms by (simp add: add_nonneg_nonneg)
  ultimately show ?thesis
    using assms by (simp add: js_rem_nonneg)
next
  case False
  then have neg: "js_rem off len = - ((- off) mod len)"
    using assms by (simp add: js_rem_neg)
  have bound: "(- off) mod len < len" "0 \<le> (- off) mod len"
    using assms by simp_all
  then have "0 \<le> len + js_rem off len"
    using neg by simp
  then have "js_rem (len + js_rem off len) len = (len - (- off) mod len) mod len"
    using assms neg by (simp add: js_rem_nonneg)
  also have "\<dots> = off mod len"
  proof (cases "off mod len = 0")
    case True
    then show ?thesis by (simp add: zmod_zminus1_eq_if)
  next
    case False
    then have "len - (- off) mod len = off mod len"
      by (simp add: zmod_zminus1_eq_if)
    then show ?thesis by simp
  qed
  finally show ?thesis .
qed

lemma rotateLeft_rotate:
  assumes "arr \<noteq> []"
  shows "rotateLeft arr (Some off) = Inr (rotate (nat (off mod int (length arr))) arr)"
proof -
  let ?n = "length arr"
  let ?i = "off mod int ?n"
  have pos: "0 < int ?n" using assms by simp
  have i0: "0 \<le> ?i" "?i < int ?n" using pos by simp_all
  have "map (\<lambda>j. arr ! nat (js_rem (?i + int j) (int ?n))) [0..<?n] = rotate (nat ?i) arr"
  proof (rule nth_equalityI)
    show "length (map (\<lambda>j. arr ! nat (js_rem (?i + int j) (int ?n))) [0..<?n]) = length (rotate (nat ?i) arr)"
      by simp
  next
    fix j assume "j < length (map (\<lambda>j. arr ! nat (js_rem (?i + int j) (int ?n))) [0..<?n])"
    then have j: "j < ?n" by simp
    have "js_rem (?i + int j) (int ?n) = (?i + int j) mod int ?n"
      using i0 pos by (simp add: js_rem_nonneg)
    also have "\<dots> = int ((nat ?i + j) mod ?n)"
      using i0 by (simp add: zmod_int)
    finally have "nat (js_rem (?i + int j) (int ?n)) = (nat ?i + j) mod ?n"
      by simp
    then show "map (\<lambda>j. arr ! nat (js_rem (?i + int j) (int ?n))) [0..<?n] ! j = rotate (nat ?i) arr ! j"
      using j by (simp add: nth_rotate)
  qed
  then show ?thesis
    using assms by (simp add: rotateLeft_def Let_def rotateLeft_start [OF pos])
qed

lemma reduce_from_append:
  "reduce_from f i (us @ vs) s = reduce_from f (i + length us) vs (reduce_from f i us s)"
  by (induction us arbitrary: i s) simp_all

lemma minIndex_step_above:
  "\<forall>y\<in>set us. m < y \<Longrightarrow> js_less m (val s) \<Longrightarrow>
     js_less m (val (reduce_from minIndex_step i us s))"
  by (induction us arbitrary: i s) (simp_all add: minIndex_step_def)

lemma minIndex_step_keep:
  "\<forall>y\<in>set vs. m \<le> y \<Longrightarrow> val s = Fin m \<Longrightarrow> reduce_from minIndex_step i vs s = s"
  by (induction vs arbitrary: i) (simp_all add: minIndex_step_def)

lemma minIndex_first_min:
  assumes "\<forall>y\<in>set us. m < y" and "\<forall>y\<in>set vs. m \<le> y"
  shows "minIndex (us @ m # vs) None = int (length us)"
proof -
  let ?s0 = "\<lparr>val = Infinity, index = - 1\<rparr>"
  let ?s1 = "reduce_from minIndex_step 0 us ?s0"
  let ?s2 = "?s1\<lparr>val := Fin m, index := int (length us)\<rparr>"
  have "js_less m (val ?s1)"
    using assms(1) by (rule minIndex_step_above) simp
  then have "minIndex_step ?s1 m (length us) = ?s2"
    by (simp add: minIndex_step_def)
  moreover have "reduce_from minIndex_step (Suc (length us)) vs ?s2 = ?s2"
    using assms(2) by (rule minIndex_step_keep) simp
  ultimately have "reduce (us @ m # vs) minIndex_step ?s0 = ?s2"
    by (simp add: reduce_def reduce_from_append)
  then show ?thesis
    by (simp add: minIndex_def)
qed

lemma normalizedCell_split:
  assumes "\<forall>y\<in>set us. m < y" and "\<forall>y\<in>set vs. m \<le> y"
  shows "normalizedCell (us @ m # vs) = Inr (m # vs @ us)"
proof -
  have "nat (int (length us) mod int (length (us @ m # vs))) = length us"
    by (simp add: nat_mod_distrib flip: zmod_int)
  moreover have "rotate (length us) (us @ m # vs) = (m # vs) @ us"
    by (rule rotate_append)
  ultimately show ?thesis
    using assms by (simp add: normalizedCell_def minIndex_first_min rotateLeft_rotate del: length_append)
qed

lemma rotate_split:
  "\<exists>us' vs'. rotate k (us @ m # vs) = us' @ m # vs' \<and> vs' @ us' = vs @ us"
proof (induction k)
  case 0
  show ?case by auto
next
  case (Suc k)
  then obtain us' vs' where r: "rotate k (us @ m # vs) = us' @ m # vs'" and e: "vs' @ us' = vs @ us"
    by blast
  show ?case
  proof (cases us')
    case Nil
    then have "rotate (Suc k) (us @ m # vs) = vs' @ m # []" using r by simp
    moreover have "[] @ vs' = vs @ us" using e Nil by simp
    ultimately show ?thesis by blast
  next
    case (Cons u t)
    then have "rotate (Suc k) (us @ m # vs) = t @ m # (vs' @ [u])" using r by simp
    moreover have "(vs' @ [u]) @ t = vs @ us" using e Cons by simp
    ultimately show ?thesis by blast
  qed
qed

lemma normalizedCell_rotate:
  assumes "c \<noteq> []" and "count_list c (Min (set c)) = 1"
  shows "normalizedCell (rotate k c) = normalizedCell c"
proof -
  define m where "m = Min (set c)"
  have min_in: "m \<in> set c" and min_le: "\<forall>y\<in>set c. m \<le> y"
    using assms(1) by (simp_all add: m_def)
  obtain us vs where c: "c = us @ m # vs"
    using min_in by (auto dest: split_list)
  have "count_list c m = 1"
    using assms(2) by (simp add: m_def)
  then have "count_list us m + count_list vs m = 0"
    unfolding c by simp
  then have notin: "m \<notin> set us" "m \<notin> set vs"
    by (simp_all add: count_list_0_iff)
  have low: "\<forall>y\<in>set us \<union> set vs. m < y"
  proof
    fix y assume y: "y \<in> set us \<union> set vs"
    then have "m \<le> y" using min_le c by auto
    moreover have "m \<noteq> y" using y notin by auto
    ultimately show "m < y" by simp
  qed
  obtain us' vs' where r: "rotate k c = us' @ m # vs'" and e: "vs' @ us' = vs @ us"
    using rotate_split [of k us m vs] c by blast
  have "set vs' \<union> set us' = set vs \<union> set us"
    using e by (metis set_append)
  then have "\<forall>y\<in>set vs' \<union> set us'. m < y"
    using low by (simp add: Un_commute)
  then have low': "\<forall>y\<in>set us'. m < y" "\<forall>y\<in>set vs'. m \<le> y"
    by (auto intro: less_imp_le)
  have "normalizedCell (rotate k c) = Inr (m # vs' @ us')"
    unfolding r using low' by (rule normalizedCell_split)
  moreover have "normalizedCell c = Inr (m # vs @ us)"
    unfolding c using low by (intro normalizedCell_split) (auto simp: less_imp_le)
  ultimately show ?thesis using e by simp
qed

text \<open>
  Claim C6, as amended. For every non-empty cell whose smallest entry occurs once (so
  for every cell of pairwise distinct node indices) and every integer rotation amount
  \<open>r\<close>, \<open>rotateLeft\<close> returns a cell and normalising it gives what normalising the
  cell itself gives; and \<open>normalizedCell([3,1,2])\<close> is \<open>[1,2,3]\<close>.
\<close>

theorem normalizedCell_rotation_invariant:
  assumes "c \<noteq> []" and "count_list c (Min (set c)) = 1"
  shows "(\<exists>c'. rotateLeft c (Some r) = Inr c' \<and> normalizedCell c' = normalizedCell c)
       \<and> normalizedCell [3, 1, 2] = Inr [1, 2, 3]"
proof
  have "rotateLeft c (Some r) = Inr (rotate (nat (r mod int (length c))) c)"
    using assms(1) by (rule rotateLeft_rotate)
  moreover have "normalizedCell (rotate (nat (r mod int (length c))) c) = normalizedCell c"
    using assms by (rule normalizedCell_rotate)
  ultimately show "\<exists>c'. rotateLeft c (Some r) = Inr c' \<and> normalizedCell c' = normalizedCell c"
    by simp
next
  have "normalizedCell ([3] @ 1 # [2]) = Inr (1 # [2] @ [3])"
    by (rule normalizedCell_split) simp_all
  then show "normalizedCell [3, 1, 2] = Inr [1, 2, 3]" by simp
qed

theorem normalizedCell_rotation_invariant_witness:
  "[5, 2, 9, 4] \<noteq> [] \<and> count_list [5, 2, 9, 4 :: int] (Min (set [5, 2, 9, 4])) = 1
   \<and> rotateLeft [5, 2, 9, 4 :: int] (Some (- 3)) = Inr [2, 9, 4, 5]
   \<and> normalizedCell [2, 9, 4, 5] = normalizedCell [5, 2, 9, 4]"
proof -
  have r: "rotateLeft [5, 2, 9, 4 :: int] (Some (- 3)) = Inr [2, 9, 4, 5]"
    by (simp add: rotateLeft_def js_rem_def upt_rec)
  show ?thesis
    using normalizedCell_rotation_invariant [of "[5, 2, 9, 4]" "- 3"] r by simp
qed

text \<open>
  Claim C6 as stated fails when the smallest entry occurs twice: rotating \<open>[1,2,1,3]\<close>
  by one gives \<open>[2,1,3,1]\<close>, which normalises to \<open>[1,3,1,2]\<close>, while \<open>[1,2,1,3]\<close>
  normalises to itself.
\<close>

theorem normalizedCell_rotation_counterexample:
  "rotateLeft [1, 2, 1, 3 :: int] (Some 1) = Inr [2, 1, 3, 1]
   \<and> normalizedCell [2, 1, 3, 1] = Inr [1, 3, 1, 2]
   \<and> normalizedCell [1, 2, 1, 3] = Inr [1, 2, 1, 3]
   \<and> normalizedCell [2, 1, 3, 1] \<noteq> normalizedCell [1, 2, 1, 3]"
proof -
  have a: "rotateLeft [1, 2, 1, 3 :: int] (Some 1) = Inr [2, 1, 3, 1]"
    by (simp add: rotateLeft_def js_rem_def upt_rec)
  have "normalizedCell ([2] @ 1 # [3, 1]) = Inr (1 # [3, 1] @ [2])"
    by (rule normalizedCell_split) simp_all
  then have b: "normalizedCell [2, 1, 3, 1] = Inr [1, 3, 1, 2]" by simp
  have "normalizedCell ([] @ 1 # [2, 1, 3]) = Inr (1 # [2, 1, 3] @ [])"
    by (rule normalizedCell_split) simp_all
  then have c: "normalizedCell [1, 2, 1, 3] = Inr [1, 2, 1, 3]" by simp
  show ?thesis using a b c by simp
qed

section \<open>Properties of double arithmetic\<close>

lemma value_of_rval: "value_of (Finite m e) = Some (rval m e)"
proof (cases "0 \<le> e")
  case True
  then have "(2::real) powr of_int e = 2 ^ nat e"
    by (simp add: powr_real_of_int)
  then show ?thesis using True by (simp add: rval_def)
next
  case False
  then have "(2::real) powr of_int e = inverse (2 ^ nat (- e))"
    by (simp add: powr_real_of_int)
  then show ?thesis using False by (simp add: rval_def divide_inverse)
qed

lemma bit_length_lower: "0 < n \<Longrightarrow> 2 ^ (bit_length n - 1) \<le> n"
proof (induction n rule: bit_length.induct)
  case (1 n)
  show ?case
  proof (cases "n div 2 = 0")
    case True
    then have "n = 1" using "1.prems" by linarith
    then show ?thesis by (simp add: bit_length.simps)
  next
    case False
    then have pos: "0 < n div 2" using "1.prems" by linarith
    then have ih: "2 ^ (bit_length (n div 2) - 1) \<le> n div 2"
      using "1.IH" "1.prems" by simp
    have bl: "bit_length n = Suc (bit_length (n div 2))"
      using "1.prems" by (subst bit_length.simps) simp
    have "0 < bit_length (n div 2)"
      using pos by (subst bit_length.simps) simp
    then have "(2::int) ^ (bit_length n - 1) = 2 * 2 ^ (bit_length (n div 2) - 1)"
      using bl by (cases "bit_length (n div 2)") simp_all
    also have "\<dots> \<le> 2 * (n div 2)" using ih by simp
    also have "\<dots> \<le> n" by linarith
    finally show ?thesis .
  qed
qed

lemma bit_length_upper: "n < 2 ^ bit_length n"
proof (induction n rule: bit_length.induct)
  case (1 n)
  show ?case
  proof (cases "n \<le> 0")
    case True
    then show ?thesis by (simp add: bit_length.simps)
  next
    case False
    then have ih: "n div 2 < 2 ^ bit_length (n div 2)" using "1.IH" by simp
    have bl: "bit_length n = Suc (bit_length (n div 2))"
      using False by (subst bit_length.simps) simp
    have "n < 2 * (n div 2 + 1)" by presburger
    also have "\<dots> \<le> 2 * 2 ^ bit_length (n div 2)" using ih by simp
    finally show ?thesis using bl by simp
  qed
qed

lemma norm_mag_value:
  "0 \<le> q \<Longrightarrow> rval (fst (norm_mag q e)) (snd (norm_mag q e)) = rval q e"
proof (induction q e rule: norm_mag.induct)
  case (1 q e)
  show ?case
  proof (cases "q \<le> 0")
    case True
    then have "q = 0" using "1.prems" by simp
    then show ?thesis by (simp add: norm_mag.simps rval_def)
  next
    case False
    show ?thesis
    proof (cases "even q")
      case True
      then have "rval (fst (norm_mag (q div 2) (e + 1))) (snd (norm_mag (q div 2) (e + 1))) = rval (q div 2) (e + 1)"
        using False "1.IH" "1.prems" by simp
      moreover have "rval (q div 2) (e + 1) = rval q e"
      proof -
        have "of_int (q div 2) * (2::real) = of_int q"
          using True by (metis dvd_div_mult_self of_int_mult of_int_numeral)
        then show ?thesis
          by (simp add: rval_def powr_add mult.assoc [symmetric] algebra_simps)
      qed
      ultimately show ?thesis
        using False True by (subst (1 2) norm_mag.simps) simp
    next
      case odd: False
      then show ?thesis using False by (subst (1 2) norm_mag.simps) simp
    qed
  qed
qed

lemma round_mag_k:
  assumes "k = max (int (bit_length n) - 53) (- 1074 - e)"
  shows "round_mag n e =
     (if k \<le> 0 then (n, e)
      else (n div 2 ^ nat k +
              (if n mod 2 ^ nat k < 2 ^ nat k div 2 then 0
               else if 2 ^ nat k div 2 < n mod 2 ^ nat k then 1
               else if even (n div 2 ^ nat k) then 0 else 1), e + k))"
  unfolding round_mag_def assms by (simp only: Let_def if_distrib [of "\<lambda>x. _ + x"] add_0_right cong: if_cong)

lemma round_mag_exact:
  assumes "k = max (int (bit_length n) - 53) (- 1074 - e)" and "\<not> 0 < k"
  shows "round_mag n e = (n, e)"
  using assms(2) by (simp add: round_mag_k [OF assms(1)])

lemma round_mag_inexact:
  assumes k: "k = max (int (bit_length n) - 53) (- 1074 - e)" and pos: "0 < k" and n: "0 \<le> n"
  obtains q' where "round_mag n e = (q', e + k)"
    and "q' = n div 2 ^ nat k \<or> (q' = n div 2 ^ nat k + 1 \<and> 2 ^ nat k div 2 \<le> n mod 2 ^ nat k)"
    and "n mod 2 ^ nat k < 2 ^ nat k div 2 \<longrightarrow> q' = n div 2 ^ nat k"
    and "n mod 2 ^ nat k = 2 ^ nat k div 2 \<and> even (n div 2 ^ nat k) \<longrightarrow> q' = n div 2 ^ nat k"
proof -
  define d :: int where "d = 2 ^ nat k"
  define q where "q = n div d"
  define r where "r = n mod d"
  define h where "h = d div 2"
  define q' where "q' = q + (if r < h then 0 else if h < r then 1 else if even q then 0 else 1)"
  have "round_mag n e = (q', e + k)"
    using pos by (simp add: round_mag_k [OF k] q'_def q_def r_def h_def d_def)
  moreover have "q' = q \<or> (q' = q + 1 \<and> h \<le> r)"
    by (auto simp: q'_def)
  moreover have "r < h \<longrightarrow> q' = q" by (simp add: q'_def)
  moreover have "r = h \<and> even q \<longrightarrow> q' = q" by (simp add: q'_def)
  ultimately show ?thesis
    using that [of q'] by (simp add: q_def r_def h_def d_def)
qed

lemma round_mag_nonneg: "0 \<le> n \<Longrightarrow> 0 \<le> fst (round_mag n e)"
proof -
  assume n: "0 \<le> n"
  define k where "k = max (int (bit_length n) - 53) (- 1074 - e)"
  show ?thesis
  proof (cases "0 < k")
    case False
    then show ?thesis using n round_mag_exact [OF k_def] by simp
  next
    case True
    obtain q' where rm: "round_mag n e = (q', e + k)"
      and q': "q' = n div 2 ^ nat k \<or> (q' = n div 2 ^ nat k + 1 \<and> 2 ^ nat k div 2 \<le> n mod 2 ^ nat k)"
      using round_mag_inexact [OF k_def True n] by blast
    have "0 \<le> n div 2 ^ nat k" using n by (simp add: pos_imp_zdiv_nonneg_iff)
    then show ?thesis using rm q' by auto
  qed
qed

lemma round_mag_bound:
  assumes n: "0 \<le> n" and le: "rval n e \<le> 2 powr of_int t"
  shows "rval (fst (round_mag n e)) (snd (round_mag n e)) \<le> 2 powr of_int t"
proof -
  define k where "k = max (int (bit_length n) - 53) (- 1074 - e)"
  show ?thesis
  proof (cases "0 < k")
    case False
    then show ?thesis using le round_mag_exact [OF k_def] by simp
  next
    case True
    define d :: int where "d = 2 ^ nat k"
    have dpos: "0 < d" by (simp add: d_def)
    have dreal: "real_of_int d = 2 powr of_int k"
      using True by (simp add: d_def powr_real_of_int)
    obtain q' where rm: "round_mag n e = (q', e + k)"
      and q': "q' = n div d \<or> (q' = n div d + 1 \<and> d div 2 \<le> n mod d)"
      and lo: "n mod d < d div 2 \<longrightarrow> q' = n div d"
      and tie: "n mod d = d div 2 \<and> even (n div d) \<longrightarrow> q' = n div d"
      using round_mag_inexact [OF k_def True n] unfolding d_def by blast
    define j where "j = t - e - k"
    have nle: "real_of_int n \<le> real_of_int d * 2 powr of_int j"
    proof -
      have "real_of_int n * 2 powr of_int e \<le> 2 powr of_int t"
        using le by (simp add: rval_def)
      then have "real_of_int n \<le> 2 powr of_int t / 2 powr of_int e"
        by (simp add: pos_le_divide_eq)
      also have "\<dots> = 2 powr (of_int k + of_int j)"
        by (simp add: j_def powr_diff [symmetric])
      finally show ?thesis by (simp add: dreal powr_add)
    qed
    have "real_of_int q' * 2 powr of_int (e + k) \<le> 2 powr of_int t"
    proof (cases "0 \<le> j")
      case True
      define P :: int where "P = 2 ^ nat j"
      have Preal: "real_of_int P = 2 powr of_int j"
        using True by (simp add: P_def powr_real_of_int)
      have "real_of_int n \<le> real_of_int (d * P)"
        using nle by (simp add: Preal)
      then have nP: "n \<le> d * P" by linarith
      have "q' \<le> P"
      proof (cases "q' = n div d")
        case True
        have "d \<noteq> 0" using dpos by linarith
        have "n div d \<le> (d * P) div d" using nP dpos by (rule zdiv_mono1)
        also have "(d * P) div d = P"
          using \<open>d \<noteq> 0\<close> by (rule nonzero_mult_div_cancel_left)
        finally show ?thesis unfolding True .
      next
        case False
        then have q1: "q' = n div d + 1" and hr: "d div 2 \<le> n mod d" using q' by auto
        have "1 \<le> d div 2"
        proof -
          have "d = 2 * 2 ^ (nat k - 1)"
            using \<open>0 < k\<close> by (cases "nat k") (simp_all add: d_def)
          then show ?thesis by simp
        qed
        then have "0 < n mod d" using hr by linarith
        then have "d * (n div d) < n"
          using mult_div_mod_eq [of d n] by linarith
        then have "d * (n div d) < d * P" using nP by linarith
        then have "n div d < P" using dpos by simp
        then show ?thesis using q1 by simp
      qed
      then have "real_of_int q' \<le> real_of_int P" by (simp only: of_int_le_iff)
      then have "real_of_int q' \<le> 2 powr of_int j" by (simp only: Preal)
      then have "real_of_int q' * 2 powr of_int (e + k) \<le> 2 powr of_int j * 2 powr of_int (e + k)"
        by (rule mult_right_mono) simp
      also have "2 powr of_int j * 2 powr of_int (e + k) = (2::real) powr (of_int j + of_int (e + k))"
        by (rule powr_add [symmetric])
      also have "of_int j + of_int (e + k) = (of_int t :: real)"
        by (simp add: j_def)
      finally show ?thesis .
    next
      case False
      then have "j \<le> - 1" by linarith
      then have "of_int j \<le> (- 1 :: real)" by linarith
      then have "(2::real) powr of_int j \<le> 2 powr (- 1)"
        by (rule powr_mono) simp
      moreover have "(2::real) powr (- 1) = 1 / 2"
        by (simp add: powr_neg_one)
      ultimately have "(2::real) powr of_int j \<le> 1 / 2" by (simp only:)
      then have "real_of_int d * 2 powr of_int j \<le> real_of_int d * (1 / 2)"
        using dpos by (intro mult_left_mono) simp_all
      then have n2: "2 * real_of_int n \<le> real_of_int d" using nle by linarith
      then have n2i: "2 * n \<le> d" by linarith
      then have "n < d" using dpos n by linarith
      then have qz: "n div d = 0" and rn: "n mod d = n" using n by simp_all
      have "n \<le> d div 2" using n2i by linarith
      then have "q' = 0"
        using lo tie qz rn by (cases "n < d div 2") auto
      then show ?thesis by simp
    qed
    then show ?thesis using rm by (simp add: rval_def)
  qed
qed

lemma rval_abs: "\<bar>rval m e\<bar> = rval \<bar>m\<bar> e"
  by (simp add: rval_def abs_mult)

lemma rval_mult: "rval (m1 * m2) (e1 + e2) = rval m1 e1 * rval m2 e2"
  by (simp add: rval_def powr_add)

lemma two_powr_nat: "0 \<le> k \<Longrightarrow> (2::real) powr of_int k = 2 ^ nat k"
  by (simp add: powr_real_of_int)

lemma rval_shift: "e \<le> e1 \<Longrightarrow> rval (m * 2 ^ nat (e1 - e)) e = rval m e1"
proof -
  assume "e \<le> e1"
  then have "0 \<le> e1 - e" by linarith
  then have "(2::real) ^ nat (e1 - e) = 2 powr of_int (e1 - e)"
    by (rule two_powr_nat [symmetric])
  then have "rval (m * 2 ^ nat (e1 - e)) e = of_int m * (2 powr of_int (e1 - e) * 2 powr of_int e)"
    by (simp add: rval_def)
  also have "2 powr of_int (e1 - e) * 2 powr of_int e = (2::real) powr (of_int (e1 - e) + of_int e)"
    by (rule powr_add [symmetric])
  also have "of_int (e1 - e) + of_int e = (of_int e1 :: real)" by simp
  finally show ?thesis by (simp add: rval_def)
qed

lemma rval_add:
  "rval (m1 * 2 ^ nat (e1 - min e1 e2) + m2 * 2 ^ nat (e2 - min e1 e2)) (min e1 e2) = rval m1 e1 + rval m2 e2"
proof -
  have "rval (m1 * 2 ^ nat (e1 - min e1 e2) + m2 * 2 ^ nat (e2 - min e1 e2)) (min e1 e2)
      = rval (m1 * 2 ^ nat (e1 - min e1 e2)) (min e1 e2) + rval (m2 * 2 ^ nat (e2 - min e1 e2)) (min e1 e2)"
    by (simp add: rval_def algebra_simps)
  then show ?thesis by (simp add: rval_shift)
qed

lemma rval_pos_powr:
  assumes "0 < q"
  shows "2 powr (of_int (int (bit_length q) - 1 + e)) \<le> rval q e"
proof -
  have "0 < bit_length q" using assms by (subst bit_length.simps) simp
  have "(2::int) ^ (bit_length q - 1) \<le> q" using assms by (rule bit_length_lower)
  then have "real_of_int (2 ^ (bit_length q - 1)) \<le> real_of_int q" by (simp only: of_int_le_iff)
  then have "(2::real) ^ (bit_length q - 1) \<le> real_of_int q" by simp
  moreover have "(2::real) ^ (bit_length q - 1) = 2 powr of_int (int (bit_length q) - 1)"
  proof -
    have "0 \<le> int (bit_length q) - 1" using \<open>0 < bit_length q\<close> by linarith
    then have "(2::real) powr of_int (int (bit_length q) - 1) = 2 ^ nat (int (bit_length q) - 1)"
      by (rule two_powr_nat)
    moreover have "nat (int (bit_length q) - 1) = bit_length q - 1" by linarith
    ultimately show ?thesis by (simp only:)
  qed
  ultimately have "2 powr of_int (int (bit_length q) - 1) \<le> real_of_int q" by (simp only:)
  then have "2 powr of_int (int (bit_length q) - 1) * 2 powr of_int e \<le> real_of_int q * 2 powr of_int e"
    by (rule mult_right_mono) simp
  moreover have "2 powr of_int (int (bit_length q) - 1) * 2 powr of_int e
      = (2::real) powr (of_int (int (bit_length q) - 1) + of_int e)"
    by (rule powr_add [symmetric])
  moreover have "of_int (int (bit_length q) - 1) + of_int e = (of_int (int (bit_length q) - 1 + e) :: real)"
    by simp
  ultimately show ?thesis by (simp only: rval_def)
qed

lemma round_to_mag_le:
  assumes le: "\<bar>rval m e\<bar> \<le> 2 powr of_int t" and t: "t \<le> 1023"
  shows "mag_le (round_to m e) t"
proof -
  define q where "q = fst (round_mag \<bar>m\<bar> e)"
  define e' where "e' = snd (round_mag \<bar>m\<bar> e)"
  have q0: "0 \<le> q" unfolding q_def by (rule round_mag_nonneg) simp
  have qle: "rval q e' \<le> 2 powr of_int t"
    unfolding q_def e'_def using le by (intro round_mag_bound) (simp_all add: rval_abs)
  have no_over: "\<not> (q \<noteq> 0 \<and> int (bit_length q) + e' > 1024)"
  proof
    assume a: "q \<noteq> 0 \<and> int (bit_length q) + e' > 1024"
    then have "0 < q" using q0 by linarith
    then have "2 powr (of_int (int (bit_length q) - 1 + e')) \<le> rval q e'" by (rule rval_pos_powr)
    then have "(2::real) powr (of_int (int (bit_length q) - 1 + e')) \<le> 2 powr of_int t"
      using qle by linarith
    then have "(of_int (int (bit_length q) - 1 + e') :: real) \<le> of_int t"
      by (simp only: powr_le_cancel_iff [of 2] one_less_numeral_iff num.simps semiring_norm)
    then have "int (bit_length q) - 1 + e' \<le> t" by (simp only: of_int_le_iff)
    then show False using a t by linarith
  qed
  define q'' where "q'' = fst (norm_mag q e')"
  define e'' where "e'' = snd (norm_mag q e')"
  have nv: "rval q'' e'' = rval q e'"
    unfolding q''_def e''_def using q0 by (rule norm_mag_value)
  have rm: "round_mag \<bar>m\<bar> e = (q, e')" by (simp add: q_def e'_def)
  have nm: "norm_mag q e' = (q'', e'')" by (simp add: q''_def e''_def)
  have rt: "round_to m e = Finite (if m < 0 then - q'' else q'') e''"
    by (simp only: round_to_def rm nm Let_def prod.case no_over if_False)
  have "0 \<le> rval q e'" using q0 by (simp add: rval_def)
  then have "0 \<le> rval q'' e''" using nv by simp
  then have "0 \<le> q''" by (simp add: rval_def zero_le_mult_iff)
  then have "\<bar>rval (if m < 0 then - q'' else q'') e''\<bar> = rval q'' e''"
    by (simp add: rval_def abs_mult)
  then have "\<bar>rval (if m < 0 then - q'' else q'') e''\<bar> = rval q e'"
    using nv by simp
  then show ?thesis
    unfolding mag_le_def using rt qle by auto
qed

lemma mag_le_mono: "mag_le a s \<Longrightarrow> s \<le> t \<Longrightarrow> mag_le a t"
proof -
  assume a: "mag_le a s" and st: "s \<le> t"
  have "(2::real) powr of_int s \<le> 2 powr of_int t"
    using st by (intro powr_mono) simp_all
  moreover obtain m e where "a = Finite m e" and "\<bar>rval m e\<bar> \<le> 2 powr of_int s"
    using a unfolding mag_le_def by blast
  ultimately have "a = Finite m e \<and> \<bar>rval m e\<bar> \<le> 2 powr of_int t" by linarith
  then show ?thesis unfolding mag_le_def by blast
qed

lemma jneg_mag_le: "mag_le a t \<Longrightarrow> mag_le (jneg a) t"
  unfolding mag_le_def by (auto simp: rval_def)

lemma jmul_mag_le:
  assumes "mag_le a s" and "mag_le b t" and "s + t \<le> 1023"
  shows "mag_le (jmul a b) (s + t)"
proof -
  obtain m1 e1 where a: "a = Finite m1 e1" and ab: "\<bar>rval m1 e1\<bar> \<le> 2 powr of_int s"
    using assms(1) unfolding mag_le_def by blast
  obtain m2 e2 where b: "b = Finite m2 e2" and bb: "\<bar>rval m2 e2\<bar> \<le> 2 powr of_int t"
    using assms(2) unfolding mag_le_def by blast
  have "\<bar>rval (m1 * m2) (e1 + e2)\<bar> = \<bar>rval m1 e1\<bar> * \<bar>rval m2 e2\<bar>"
    by (simp add: rval_mult abs_mult)
  also have "\<dots> \<le> 2 powr of_int s * 2 powr of_int t"
    using ab bb by (intro mult_mono) simp_all
  also have "\<dots> = 2 powr (of_int s + of_int t)" by (rule powr_add [symmetric])
  also have "of_int s + of_int t = (of_int (s + t) :: real)" by simp
  finally have "mag_le (round_to (m1 * m2) (e1 + e2)) (s + t)"
    using assms(3) by (intro round_to_mag_le)
  then show ?thesis by (simp add: a b)
qed

lemma jadd_mag_le:
  assumes "mag_le a t" and "mag_le b t" and "t + 1 \<le> 1023"
  shows "mag_le (jadd a b) (t + 1)"
proof -
  obtain m1 e1 where a: "a = Finite m1 e1" and ab: "\<bar>rval m1 e1\<bar> \<le> 2 powr of_int t"
    using assms(1) unfolding mag_le_def by blast
  obtain m2 e2 where b: "b = Finite m2 e2" and bb: "\<bar>rval m2 e2\<bar> \<le> 2 powr of_int t"
    using assms(2) unfolding mag_le_def by blast
  let ?m = "m1 * 2 ^ nat (e1 - min e1 e2) + m2 * 2 ^ nat (e2 - min e1 e2)"
  have "\<bar>rval ?m (min e1 e2)\<bar> \<le> \<bar>rval m1 e1\<bar> + \<bar>rval m2 e2\<bar>"
    by (simp only: rval_add abs_triangle_ineq)
  also have "\<dots> \<le> 2 powr of_int t + 2 powr of_int t" using ab bb by linarith
  also have "\<dots> = 2 powr of_int t * 2 powr 1" by simp
  also have "\<dots> = 2 powr (of_int t + 1)" by (rule powr_add [symmetric])
  also have "of_int t + 1 = (of_int (t + 1) :: real)" by simp
  finally have "mag_le (round_to ?m (min e1 e2)) (t + 1)"
    using assms(3) by (intro round_to_mag_le)
  then show ?thesis by (simp add: a b Let_def)
qed

lemma jsub_mag_le:
  "mag_le a t \<Longrightarrow> mag_le b t \<Longrightarrow> t + 1 \<le> 1023 \<Longrightarrow> mag_le (jsub a b) (t + 1)"
  unfolding jsub_def by (intro jadd_mag_le jneg_mag_le)

lemma mag_le_finite: "mag_le a t \<Longrightarrow> value_of a \<noteq> None"
  unfolding mag_le_def by auto

lemma round_mag_0: "fst (round_mag 0 e) = 0"
proof -
  have "\<not> (2::int) ^ n div 2 < 0" for n
    by (simp add: pos_imp_zdiv_neg_iff)
  then show ?thesis
    by (simp add: round_mag_def Let_def)
qed

lemma norm_mag_0: "norm_mag 0 e = (0, 0)"
  by (simp add: norm_mag.simps)

lemma round_to_0: "round_to 0 e = Finite 0 0"
  by (simp add: round_to_def split_beta round_mag_0 norm_mag_0)

lemma round_to_neg: "round_to (- m) e = jneg (round_to m e)"
proof (cases "m = 0")
  case True
  then show ?thesis by (simp add: round_to_0)
next
  case False
  then show ?thesis
    by (cases "m < 0") (simp_all add: round_to_def split_beta Let_def)
qed

lemma jmul_jneg_left: "jmul (jneg a) b = jneg (jmul a b)"
  by (cases a; cases b) (simp_all add: round_to_neg Let_def sgn_if)

lemma value_of_jneg: "value_of (jneg a) = map_option uminus (value_of a)"
  by (cases a) simp_all

lemmas js_lits = js_0_def js_1_def js_0_5_def js_0_25_def js_0_125_def

lemma mag_le_unit0: "e \<le> 0 \<Longrightarrow> \<bar>m\<bar> \<le> 2 ^ nat (- e) \<Longrightarrow> mag_le (Finite m e) 0"
proof -
  assume e: "e \<le> 0" and m: "\<bar>m\<bar> \<le> 2 ^ nat (- e)"
  have "real_of_int \<bar>m\<bar> \<le> real_of_int (2 ^ nat (- e))" using m by (simp only: of_int_le_iff)
  then have "\<bar>real_of_int m\<bar> \<le> 2 ^ nat (- e)" by simp
  moreover have "(2::real) powr of_int (- e) = 2 ^ nat (- e)"
    using e by (intro two_powr_nat) simp
  ultimately have "\<bar>real_of_int m\<bar> \<le> 2 powr of_int (- e)" by (simp only:)
  then have "\<bar>real_of_int m\<bar> * 2 powr of_int e \<le> 2 powr of_int (- e) * 2 powr of_int e"
    by (rule mult_right_mono) simp
  also have "2 powr of_int (- e) * 2 powr of_int e = (2::real) powr (of_int (- e) + of_int e)"
    by (rule powr_add [symmetric])
  also have "(2::real) powr (of_int (- e) + of_int e) = 1" by simp
  finally have "\<bar>rval m e\<bar> \<le> 1" by (simp add: rval_def abs_mult)
  then show ?thesis unfolding mag_le_def by simp
qed

lemma mag_le_unit: "e \<le> 0 \<Longrightarrow> \<bar>m\<bar> \<le> 2 ^ nat (- e) \<Longrightarrow> mag_le (Finite m e) 300"
  by (rule mag_le_mono [OF mag_le_unit0]) simp_all

lemma round_mag_err:
  assumes k: "k = max (int (bit_length n) - 53) (- 1074 - e)" and pos: "0 < k" and n: "0 \<le> n"
  shows "snd (round_mag n e) = e + k"
    and "\<bar>2 * (fst (round_mag n e) * 2 ^ nat k - n)\<bar> \<le> 2 ^ nat k"
proof -
  define d :: int where "d = 2 ^ nat k"
  define q where "q = n div d"
  define r where "r = n mod d"
  define h where "h = d div 2"
  define c :: int where "c = (if r < h then 0 else if h < r then 1 else if even q then 0 else 1)"
  have rm: "round_mag n e = (q + c, e + k)"
    using pos by (simp add: round_mag_k [OF k] q_def r_def h_def d_def c_def)
  show "snd (round_mag n e) = e + k" by (simp add: rm)
  have dpos: "0 < d" by (simp add: d_def)
  have "nat k = Suc (nat k - 1)" using pos by simp
  then have "d = 2 * 2 ^ (nat k - 1)" unfolding d_def by (metis power_Suc)
  then have d2: "d = 2 * h" unfolding h_def by simp
  have nqr: "n = q * d + r" by (simp add: q_def r_def)
  have r0: "0 \<le> r" "r < d" using dpos by (simp_all add: r_def)
  have diff: "(q + c) * d - n = c * d - r" by (simp add: nqr algebra_simps)
  have "\<bar>2 * (c * d - r)\<bar> \<le> d"
    using r0 d2 by (auto simp: c_def)
  then show "\<bar>2 * (fst (round_mag n e) * 2 ^ nat k - n)\<bar> \<le> 2 ^ nat k"
    using diff by (simp add: rm d_def)
qed

lemma round_mag_err_real:
  assumes n: "0 \<le> n" and le: "rval n e \<le> 2 powr of_int t" and t: "- 1022 \<le> t"
  shows "\<bar>rval (fst (round_mag n e)) (snd (round_mag n e)) - rval n e\<bar> \<le> 2 powr of_int (t - 53)"
proof -
  define k where "k = max (int (bit_length n) - 53) (- 1074 - e)"
  show ?thesis
  proof (cases "0 < k")
    case False
    then show ?thesis using round_mag_exact [OF k_def] by simp
  next
    case True
    define q' where "q' = fst (round_mag n e)"
    have e': "snd (round_mag n e) = e + k" using round_mag_err(1) [OF k_def True n] .
    have err: "\<bar>2 * (q' * 2 ^ nat k - n)\<bar> \<le> 2 ^ nat k"
      unfolding q'_def using round_mag_err(2) [OF k_def True n] .
    have kk: "(2::real) powr of_int k = 2 ^ nat k" using True by (intro two_powr_nat) simp
    have "real_of_int \<bar>2 * (q' * 2 ^ nat k - n)\<bar> \<le> real_of_int (2 ^ nat k)"
      using err by (simp only: of_int_le_iff)
    then have "\<bar>2 * (real_of_int q' * 2 ^ nat k - real_of_int n)\<bar> \<le> 2 ^ nat k"
      by simp
    then have e1: "2 * \<bar>real_of_int q' * 2 ^ nat k - real_of_int n\<bar> \<le> 2 ^ nat k"
      by (simp only: abs_mult abs_numeral)
    have "rval q' (e + k) - rval n e = (real_of_int q' * 2 powr of_int k - real_of_int n) * 2 powr of_int e"
      by (simp add: rval_def powr_add algebra_simps)
    then have "\<bar>rval q' (e + k) - rval n e\<bar> = \<bar>real_of_int q' * 2 ^ nat k - real_of_int n\<bar> * 2 powr of_int e"
      by (simp add: abs_mult kk)
    also have "\<dots> \<le> (2 ^ nat k / 2) * 2 powr of_int e"
      using e1 by (intro mult_right_mono) simp_all
    also have "\<dots> = 2 powr of_int k * 2 powr (- 1) * 2 powr of_int e"
      by (simp add: kk powr_neg_one)
    also have "\<dots> = 2 powr (of_int k + (- 1) + of_int e)"
      by (simp only: powr_add)
    also have "of_int k + (- 1) + of_int e = (of_int (e + k - 1) :: real)" by simp
    finally have b1: "\<bar>rval q' (e + k) - rval n e\<bar> \<le> 2 powr of_int (e + k - 1)" .
    have ek: "e + k - 1 \<le> t - 53"
    proof (cases "n = 0")
      case True
      then have "bit_length n = 0" by (subst bit_length.simps) simp
      then show ?thesis using \<open>0 < k\<close> t unfolding k_def by simp
    next
      case False
      then have "0 < n" using n by simp
      then have "2 powr (of_int (int (bit_length n) - 1 + e)) \<le> rval n e" by (rule rval_pos_powr)
      then have "(2::real) powr (of_int (int (bit_length n) - 1 + e)) \<le> 2 powr of_int t"
        using le by linarith
      then have "(of_int (int (bit_length n) - 1 + e) :: real) \<le> of_int t"
        by (simp only: powr_le_cancel_iff [of 2] one_less_numeral_iff num.simps semiring_norm)
      then have "int (bit_length n) - 1 + e \<le> t" by (simp only: of_int_le_iff)
      then show ?thesis using t unfolding k_def by linarith
    qed
    have "real_of_int (e + k - 1) \<le> real_of_int (t - 53)"
      using ek by (simp only: of_int_le_iff)
    then have "(2::real) powr of_int (e + k - 1) \<le> 2 powr of_int (t - 53)"
      by (rule powr_mono) simp
    then have "\<bar>rval q' (e + k) - rval n e\<bar> \<le> 2 powr of_int (t - 53)"
      using b1 by (rule order_trans [rotated])
    then show ?thesis by (simp only: q'_def e')
  qed
qed

lemma round_to_err:
  assumes le: "\<bar>rval m e\<bar> \<le> 2 powr of_int t" and t: "t \<le> 1023" and t': "- 1022 \<le> t"
  shows "\<exists>w. value_of (round_to m e) = Some w \<and> \<bar>w - rval m e\<bar> \<le> 2 powr of_int (t - 53)
           \<and> \<bar>w\<bar> \<le> 2 powr of_int t"
proof -
  define q where "q = fst (round_mag \<bar>m\<bar> e)"
  define e' where "e' = snd (round_mag \<bar>m\<bar> e)"
  have q0: "0 \<le> q" unfolding q_def by (rule round_mag_nonneg) simp
  have qle: "rval q e' \<le> 2 powr of_int t"
    unfolding q_def e'_def using le by (intro round_mag_bound) (simp_all add: rval_abs)
  have qerr: "\<bar>rval q e' - rval \<bar>m\<bar> e\<bar> \<le> 2 powr of_int (t - 53)"
    unfolding q_def e'_def using le t' by (intro round_mag_err_real) (simp_all add: rval_abs)
  have no_over: "\<not> (q \<noteq> 0 \<and> int (bit_length q) + e' > 1024)"
  proof
    assume a: "q \<noteq> 0 \<and> int (bit_length q) + e' > 1024"
    then have "0 < q" using q0 by linarith
    then have "2 powr (of_int (int (bit_length q) - 1 + e')) \<le> rval q e'" by (rule rval_pos_powr)
    then have "(2::real) powr (of_int (int (bit_length q) - 1 + e')) \<le> 2 powr of_int t"
      using qle by linarith
    then have "(of_int (int (bit_length q) - 1 + e') :: real) \<le> of_int t"
      by (simp only: powr_le_cancel_iff [of 2] one_less_numeral_iff num.simps semiring_norm)
    then have "int (bit_length q) - 1 + e' \<le> t" by (simp only: of_int_le_iff)
    then show False using a t by linarith
  qed
  define q'' where "q'' = fst (norm_mag q e')"
  define e'' where "e'' = snd (norm_mag q e')"
  have nv: "rval q'' e'' = rval q e'"
    unfolding q''_def e''_def using q0 by (rule norm_mag_value)
  have rm: "round_mag \<bar>m\<bar> e = (q, e')" by (simp add: q_def e'_def)
  have nm: "norm_mag q e' = (q'', e'')" by (simp add: q''_def e''_def)
  have rt: "round_to m e = Finite (if m < 0 then - q'' else q'') e''"
    by (simp only: round_to_def rm nm Let_def prod.case no_over if_False)
  have q0r: "0 \<le> rval q e'" using q0 by (simp add: rval_def)
  show ?thesis
  proof (cases "m < 0")
    case True
    then have "rval m e = - rval \<bar>m\<bar> e" by (simp add: rval_def)
    moreover have "rval (- q'') e'' = - rval q e'" using nv by (simp add: rval_def)
    ultimately have "\<bar>rval (- q'') e'' - rval m e\<bar> \<le> 2 powr of_int (t - 53)"
        "\<bar>rval (- q'') e''\<bar> \<le> 2 powr of_int t"
      using qerr qle q0r by simp_all
    then show ?thesis using True by (simp add: rt value_of_rval del: value_of.simps)
  next
    case False
    then have "rval m e = rval \<bar>m\<bar> e" by (simp add: rval_def)
    then have "\<bar>rval q'' e'' - rval m e\<bar> \<le> 2 powr of_int (t - 53)"
        "\<bar>rval q'' e''\<bar> \<le> 2 powr of_int t"
      using qerr qle q0r nv by simp_all
    then show ?thesis using False by (simp add: rt value_of_rval del: value_of.simps)
  qed
qed

lemma value_of_Some: "value_of a = Some w \<Longrightarrow> \<exists>m e. a = Finite m e \<and> w = rval m e"
proof (cases a)
  case (Finite m e)
  assume "value_of a = Some w"
  then have "w = rval m e" by (simp add: Finite value_of_rval del: value_of.simps)
  then show ?thesis using Finite by blast
qed simp_all

lemma jmul_err:
  assumes a: "value_of a = Some wa" and b: "value_of b = Some wb"
    and le: "\<bar>wa * wb\<bar> \<le> 2 powr of_int t" and t: "t \<le> 1023" "- 1022 \<le> t"
  shows "\<exists>w. value_of (jmul a b) = Some w \<and> \<bar>w - wa * wb\<bar> \<le> 2 powr of_int (t - 53)
           \<and> \<bar>w\<bar> \<le> 2 powr of_int t"
proof -
  obtain m1 e1 where a': "a = Finite m1 e1" "wa = rval m1 e1" using value_of_Some [OF a] by blast
  obtain m2 e2 where b': "b = Finite m2 e2" "wb = rval m2 e2" using value_of_Some [OF b] by blast
  have "\<bar>rval (m1 * m2) (e1 + e2)\<bar> \<le> 2 powr of_int t"
    using le by (simp only: rval_mult a' b')
  from round_to_err [OF this t] show ?thesis
    by (simp add: a' b' rval_mult del: value_of.simps)
qed

lemma jadd_err:
  assumes a: "value_of a = Some wa" and b: "value_of b = Some wb"
    and le: "\<bar>wa + wb\<bar> \<le> 2 powr of_int t" and t: "t \<le> 1023" "- 1022 \<le> t"
  shows "\<exists>w. value_of (jadd a b) = Some w \<and> \<bar>w - (wa + wb)\<bar> \<le> 2 powr of_int (t - 53)
           \<and> \<bar>w\<bar> \<le> 2 powr of_int t"
proof -
  obtain m1 e1 where a': "a = Finite m1 e1" "wa = rval m1 e1" using value_of_Some [OF a] by blast
  obtain m2 e2 where b': "b = Finite m2 e2" "wb = rval m2 e2" using value_of_Some [OF b] by blast
  let ?m = "m1 * 2 ^ nat (e1 - min e1 e2) + m2 * 2 ^ nat (e2 - min e1 e2)"
  have "\<bar>rval ?m (min e1 e2)\<bar> \<le> 2 powr of_int t"
    using le by (simp only: rval_add a' b')
  from round_to_err [OF this t] show ?thesis
    by (simp add: a' b' rval_add Let_def del: value_of.simps)
qed

lemma jsub_err:
  assumes a: "value_of a = Some wa" and b: "value_of b = Some wb"
    and le: "\<bar>wa - wb\<bar> \<le> 2 powr of_int t" and t: "t \<le> 1023" "- 1022 \<le> t"
  shows "\<exists>w. value_of (jsub a b) = Some w \<and> \<bar>w - (wa - wb)\<bar> \<le> 2 powr of_int (t - 53)
           \<and> \<bar>w\<bar> \<le> 2 powr of_int t"
proof -
  have nb: "value_of (jneg b) = Some (- wb)" by (simp add: value_of_jneg b)
  have "\<bar>wa + - wb\<bar> \<le> 2 powr of_int t" using le by simp
  from jadd_err [OF a nb this t] show ?thesis by (simp add: jsub_def)
qed

section \<open>Properties of system.vector\<close>

lemma scatter_step_dim: "sv_dim (scatter_step vec dest en i) = sv_dim dest"
  by (simp add: scatter_step_def sv_set_def Let_def)

lemma scatter_step_entry:
  "sv_entries (scatter_step vec dest en i) q
     = (if en \<noteq> 0 \<and> en - 1 = q then jadd (sv_entries dest q) (read_num vec i) else sv_entries dest q)"
  by (auto simp: scatter_step_def sv_set_def sv_at_def Let_def)

lemma scatter_from_entry:
  "sv_entries (reduce_from (scatter_step vec) i ens dest) q =
     foldl jadd (sv_entries dest q)
       (map (\<lambda>(en, j). read_num vec j)
          (filter (\<lambda>(en, j). en \<noteq> 0 \<and> en - 1 = q) (zip ens [i..<i + length ens])))"
proof (induction ens arbitrary: i dest)
  case Nil
  show ?case by simp
next
  case (Cons en ens)
  have "i < i + length (en # ens)" by simp
  then have "[i..<i + length (en # ens)] = i # [Suc i..<i + length (en # ens)]"
    by (rule upt_conv_Cons)
  moreover have "i + length (en # ens) = Suc i + length ens" by simp
  ultimately have u: "[i..<i + length (en # ens)] = i # [Suc i..<Suc i + length ens]"
    by (simp only:)
  have z: "zip (en # ens) [i..<i + length (en # ens)] = (en, i) # zip ens [Suc i..<Suc i + length ens]"
    by (simp only: u zip_Cons_Cons)
  show ?case
    unfolding z by (simp add: Cons.IH scatter_step_entry)
qed

lemma scatter_from_dim: "sv_dim (reduce_from (scatter_step vec) i ens dest) = sv_dim dest"
  by (induction ens arbitrary: i dest) (simp_all add: scatter_step_dim)

lemma scatter_dim: "sv_dim (scatter ev dest) = sv_dim dest"
  by (simp add: scatter_def scatter_from_dim)

lemma scatter_entry:
  "sv_entries (scatter ev dest) q = foldl jadd (sv_entries dest q) (contributions ev q)"
  using scatter_from_entry [of "vector ev" 0 "eqnums ev" dest q]
  by (simp add: scatter_def contributions_def)

declare assemble_loop.simps [simp del]

lemma assemble_loop_Nil:
  "remaining sources = [] \<Longrightarrow> assemble_loop sources dest = (sources, dest)"
  by (subst assemble_loop.simps) (simp add: hasNext_def)

lemma assemble_loop_Cons:
  "remaining sources = ev # rest \<Longrightarrow>
     assemble_loop sources dest
       = assemble_loop (sources\<lparr>remaining := rest, pulls := Suc (pulls sources)\<rparr>) (scatter ev dest)"
  by (subst assemble_loop.simps) (simp add: hasNext_def next_ev_def)

lemma assemble_loop_result:
  "sv_entries (snd (assemble_loop sources dest)) q
     = foldl jadd (sv_entries dest q) (concat (map (\<lambda>ev. contributions ev q) (remaining sources)))"
proof (induction sources dest rule: assemble_loop.induct)
  case (1 sources dest)
  show ?case
  proof (cases "remaining sources")
    case Nil
    then show ?thesis by (simp add: assemble_loop_Nil)
  next
    case (Cons ev rest)
    let ?sources' = "sources\<lparr>remaining := rest, pulls := Suc (pulls sources)\<rparr>"
    have nx: "next_ev sources = (ev, ?sources')" "hasNext sources"
      using Cons by (simp_all add: next_ev_def hasNext_def)
    have "sv_entries (snd (assemble_loop ?sources' (scatter ev dest))) q
           = foldl jadd (sv_entries (scatter ev dest) q)
               (concat (map (\<lambda>ev. contributions ev q) (remaining ?sources')))"
      using nx by (intro "1.IH") simp_all
    then show ?thesis
      using Cons by (simp add: assemble_loop_Cons scatter_entry)
  qed
qed

lemma assemble_loop_drains:
  "fst (assemble_loop sources dest) = sources\<lparr>remaining := [], pulls := pulls sources + length (remaining sources)\<rparr>"
proof (induction sources dest rule: assemble_loop.induct)
  case (1 sources dest)
  show ?case
  proof (cases "remaining sources")
    case Nil
    then show ?thesis by (simp add: assemble_loop_Nil)
  next
    case (Cons ev rest)
    let ?sources' = "sources\<lparr>remaining := rest, pulls := Suc (pulls sources)\<rparr>"
    have nx: "next_ev sources = (ev, ?sources')" "hasNext sources"
      using Cons by (simp_all add: next_ev_def hasNext_def)
    have "fst (assemble_loop ?sources' (scatter ev dest))
        = ?sources'\<lparr>remaining := [], pulls := pulls ?sources' + length (remaining ?sources')\<rparr>"
      using nx by (intro "1.IH") simp_all
    then show ?thesis using Cons by (simp add: assemble_loop_Cons)
  qed
qed

lemma assemble_loop_dim: "sv_dim (snd (assemble_loop sources dest)) = sv_dim dest"
proof (induction sources dest rule: assemble_loop.induct)
  case (1 sources dest)
  show ?case
  proof (cases "remaining sources")
    case Nil
    then show ?thesis by (simp add: assemble_loop_Nil)
  next
    case (Cons ev rest)
    let ?sources' = "sources\<lparr>remaining := rest, pulls := Suc (pulls sources)\<rparr>"
    have nx: "next_ev sources = (ev, ?sources')" "hasNext sources"
      using Cons by (simp_all add: next_ev_def hasNext_def)
    have "sv_dim (snd (assemble_loop ?sources' (scatter ev dest))) = sv_dim (scatter ev dest)"
      using nx by (intro "1.IH") simp_all
    then show ?thesis using Cons by (simp add: assemble_loop_Cons scatter_dim)
  qed
qed

lemma assemble_loop_new:
  "sv_entries (snd (assemble_loop sources (SparseVector_new d))) q = assembled_at (remaining sources) q"
  by (simp add: assemble_loop_result assembled_at_def SparseVector_new_def)

lemma sparseVector_fresh:
  assumes "f_sparseVector this = None"
    and "f_evs this = EvArray evs \<or> (\<exists>it. f_evs this = EvIterator it \<and> remaining it = evs)"
  shows "\<exists>sv this'. sparseVector this = Inr (Some sv, this')
           \<and> (\<forall>q. sv_entries sv q = assembled_at evs q)
           \<and> toFull this = Inr (map (\<lambda>p. assembled_at evs (int p)) [0..<f_dim this], this')"
proof -
  from assms(2) show ?thesis
  proof
    assume a: "f_evs this = EvArray evs"
    let ?res = "assemble_loop (iteratorFromList evs) (SparseVector_new (f_dim this))"
    have e: "sv_entries (snd ?res) q = assembled_at evs q" for q
      using assemble_loop_new [of "iteratorFromList evs" "f_dim this" q]
      by (simp add: iteratorFromList_def)
    have d: "sv_dim (snd ?res) = f_dim this"
      by (simp add: assemble_loop_dim SparseVector_new_def)
    show ?thesis
      using assms(1) a e d
      by (simp add: toFull_def sparseVector_def assemble_def bindE_def split_beta Let_def sv_toFull_def)
  next
    assume "\<exists>it. f_evs this = EvIterator it \<and> remaining it = evs"
    then obtain it where a: "f_evs this = EvIterator it" and r: "remaining it = evs" by blast
    let ?res = "assemble_loop it (SparseVector_new (f_dim this))"
    have e: "sv_entries (snd ?res) q = assembled_at evs q" for q
      using assemble_loop_new [of it "f_dim this" q] r by simp
    have d: "sv_dim (snd ?res) = f_dim this"
      by (simp add: assemble_loop_dim SparseVector_new_def)
    show ?thesis
      using assms(1) a e d
      by (simp add: toFull_def sparseVector_def assemble_def bindE_def split_beta Let_def sv_toFull_def)
  qed
qed

text \<open>
  Claim C1. Assembly is a scatter-add. For a fresh SparseSystemVector whose equation
  numbers lie within \<open>0 .. dim\<close>, the assembled vector holds at every index \<open>q\<close> the
  entries \<open>vector[i]\<close> with \<open>eqnums[i] \<noteq> 0\<close> and \<open>eqnums[i] - 1 = q\<close>, added in double
  arithmetic one after the other to 0, in the order of the element vectors: contributions
  to one position accumulate. An entry with equation number 0 is added nowhere, so
  nothing is ever written at index \<open>-1\<close>. \<open>toFull()\<close> lists the positions
  \<open>0 .. dim - 1\<close>. With dimension 3, \<open>ev1 = {vector:[1,2], eqnums:[1,2]}\<close> and
  \<open>ev2 = {vector:[3,4], eqnums:[2,0]}\<close> it returns \<open>[1, 5, 0]\<close>.
\<close>

theorem assembly_scatter_add:
  assumes "f_sparseVector this = None"
    and "f_evs this = EvArray evs \<or> (\<exists>it. f_evs this = EvIterator it \<and> remaining it = evs)"
    and "\<forall>ev\<in>set evs. \<forall>en\<in>set (eqnums ev). 0 \<le> en \<and> en \<le> int (f_dim this)"
  shows "(\<exists>sv this'. sparseVector this = Inr (Some sv, this')
            \<and> (\<forall>q. sv_entries sv q = assembled_at evs q)
            \<and> sv_entries sv (- 1) = js_0
            \<and> toFull this = Inr (map (\<lambda>p. assembled_at evs (int p)) [0..<f_dim this], this'))
       \<and> (\<exists>this'. toFull (SparseSystemVector_new 3
                (EvArray [\<lparr>vector = [js_int 1, js_int 2], eqnums = [1, 2]\<rparr>,
                          \<lparr>vector = [js_int 3, js_int 4], eqnums = [2, 0]\<rparr>]))
              = Inr ([js_int 1, js_int 5, js_int 0], this'))"
proof
  obtain sv this' where first: "sparseVector this = Inr (Some sv, this')"
      and all: "\<forall>q. sv_entries sv q = assembled_at evs q"
      and full: "toFull this = Inr (map (\<lambda>p. assembled_at evs (int p)) [0..<f_dim this], this')"
    using sparseVector_fresh [OF assms(1) assms(2)] by blast
  have "contributions ev (- 1) = []" for ev
    by (simp add: contributions_def filter_empty_conv)
  then have c: "concat (map (\<lambda>ev. contributions ev (- 1)) evs) = []"
    by simp
  have "assembled_at evs (- 1) = js_0"
    unfolding assembled_at_def by (simp only: c foldl_Nil)
  then have "sv_entries sv (- 1) = js_0" using all by simp
  with first all full
  show "\<exists>sv this'. sparseVector this = Inr (Some sv, this')
            \<and> (\<forall>q. sv_entries sv q = assembled_at evs q)
            \<and> sv_entries sv (- 1) = js_0
            \<and> toFull this = Inr (map (\<lambda>p. assembled_at evs (int p)) [0..<f_dim this], this')"
    by blast
next
  let ?evs = "[\<lparr>vector = [js_int 1, js_int 2], eqnums = [1, 2]\<rparr>,
               \<lparr>vector = [js_int 3, js_int 4], eqnums = [2, 0]\<rparr>]"
  have "\<exists>sv this'. sparseVector (SparseSystemVector_new 3 (EvArray ?evs)) = Inr (Some sv, this')
          \<and> (\<forall>q. sv_entries sv q = assembled_at ?evs q)
          \<and> toFull (SparseSystemVector_new 3 (EvArray ?evs))
             = Inr (map (\<lambda>p. assembled_at ?evs (int p)) [0..<f_dim (SparseSystemVector_new 3 (EvArray ?evs))], this')"
    by (rule sparseVector_fresh) (simp_all add: SparseSystemVector_new_def)
  moreover have "map (\<lambda>p. assembled_at ?evs (int p)) [0..<3] = [js_int 1, js_int 5, js_int 0]"
    by code_simp
  ultimately show "\<exists>this'. toFull (SparseSystemVector_new 3 (EvArray ?evs))
      = Inr ([js_int 1, js_int 5, js_int 0], this')"
    by (auto simp: SparseSystemVector_new_def)
qed

text \<open>The witness adds \<open>2^53\<close>, 1 and 1 at one position: in double arithmetic each
  addition of 1 is rounded away and the position holds \<open>2^53\<close>.\<close>

theorem assembly_scatter_add_witness:
  "f_sparseVector (SparseSystemVector_new 2 (EvIterator \<lparr>remaining =
       [\<lparr>vector = [Finite 1 53, js_int 1, js_int 1], eqnums = [1, 1, 1]\<rparr>,
        \<lparr>vector = [js_int 5, js_int 9], eqnums = [0, 2]\<rparr>], pulls = 0\<rparr>)) = None
   \<and> (\<exists>this'. toFull (SparseSystemVector_new 2 (EvIterator \<lparr>remaining =
       [\<lparr>vector = [Finite 1 53, js_int 1, js_int 1], eqnums = [1, 1, 1]\<rparr>,
        \<lparr>vector = [js_int 5, js_int 9], eqnums = [0, 2]\<rparr>], pulls = 0\<rparr>))
         = Inr ([Finite 1 53, js_int 9], this'))"
proof -
  let ?evs = "[\<lparr>vector = [Finite 1 53, js_int 1, js_int 1], eqnums = [1, 1, 1]\<rparr>,
               \<lparr>vector = [js_int 5, js_int 9], eqnums = [0, 2]\<rparr>]"
  have v: "map (\<lambda>p. assembled_at ?evs (int p)) [0..<2] = [Finite 1 53, js_int 9]"
    by code_simp
  show ?thesis
    using assembly_scatter_add [of "SparseSystemVector_new 2 (EvIterator \<lparr>remaining = ?evs, pulls = 0\<rparr>)" ?evs] v
    by (auto simp: SparseSystemVector_new_def)
qed

lemma sparseVector_first:
  assumes "f_sparseVector this = None" and "f_evs this \<noteq> EvOther"
  shows "\<exists>sv this'. sparseVector this = Inr (Some sv, this') \<and> f_sparseVector this' = Some sv
           \<and> f_evs this' = (case f_evs this of
                 EvIterator it \<Rightarrow> EvIterator (it\<lparr>remaining := [], pulls := pulls it + length (remaining it)\<rparr>)
               | src \<Rightarrow> src)"
proof (cases "f_evs this")
  case (EvArray lst)
  then show ?thesis
    using assms(1) by (simp add: sparseVector_def assemble_def bindE_def split_beta Let_def)
next
  case (EvIterator it)
  then show ?thesis
    using assms(1) assemble_loop_drains [of it "SparseVector_new (f_dim this)"]
    by (simp add: sparseVector_def assemble_def bindE_def split_beta Let_def)
next
  case EvOther
  then show ?thesis using assms(2) by simp
qed

lemma sparseVector_cached:
  assumes "f_sparseVector this = Some sv"
  shows "sparseVector this = Inr (Some sv, this)"
  using assms by (simp add: sparseVector_def)

text \<open>
  Claim C8. The first call of \<open>sparseVector()\<close> on an instance whose sources are an
  array or an iterator assembles, stores the result in the instance and consumes an
  iterator it holds once, to the end. A further call of \<open>sparseVector()\<close> or
  \<open>toFull()\<close> returns the stored vector and leaves the instance, with its iterator,
  as it is.
\<close>

theorem sparseVector_memoized:
  assumes "f_sparseVector this = None" and "f_evs this \<noteq> EvOther"
  shows "\<exists>sv this'. sparseVector this = Inr (Some sv, this')
           \<and> f_sparseVector this' = Some sv
           \<and> f_evs this' = (case f_evs this of
                 EvIterator it \<Rightarrow> EvIterator (it\<lparr>remaining := [], pulls := pulls it + length (remaining it)\<rparr>)
               | src \<Rightarrow> src)
           \<and> sparseVector this' = Inr (Some sv, this')
           \<and> toFull this' = Inr (sv_toFull sv, this')"
proof -
  obtain sv this' where first: "sparseVector this = Inr (Some sv, this')"
      and cache: "f_sparseVector this' = Some sv"
      and evs: "f_evs this' = (case f_evs this of
                 EvIterator it \<Rightarrow> EvIterator (it\<lparr>remaining := [], pulls := pulls it + length (remaining it)\<rparr>)
               | src \<Rightarrow> src)"
    using sparseVector_first [OF assms] by blast
  have again: "sparseVector this' = Inr (Some sv, this')"
    using cache by (rule sparseVector_cached)
  then have "toFull this' = Inr (sv_toFull sv, this')"
    by (simp add: toFull_def bindE_def)
  with first cache evs again show ?thesis by blast
qed
theorem sparseVector_memoized_witness:
  "f_sparseVector (SparseSystemVector_new 2 (EvIterator \<lparr>remaining = [\<lparr>vector = [js_int 7, js_int 1], eqnums = [2, 2]\<rparr>,
       \<lparr>vector = [js_int 5, js_int 9], eqnums = [0, 1]\<rparr>], pulls = 0\<rparr>)) = None
   \<and> f_evs (SparseSystemVector_new 2 (EvIterator \<lparr>remaining = [\<lparr>vector = [js_int 7, js_int 1], eqnums = [2, 2]\<rparr>,
       \<lparr>vector = [js_int 5, js_int 9], eqnums = [0, 1]\<rparr>], pulls = 0\<rparr>)) \<noteq> EvOther
   \<and> (\<exists>sv this'. sparseVector (SparseSystemVector_new 2 (EvIterator \<lparr>remaining = [\<lparr>vector = [js_int 7, js_int 1], eqnums = [2, 2]\<rparr>,
       \<lparr>vector = [js_int 5, js_int 9], eqnums = [0, 1]\<rparr>], pulls = 0\<rparr>)) = Inr (Some sv, this')
         \<and> f_evs this' = EvIterator \<lparr>remaining = [], pulls = 2\<rparr>
         \<and> sparseVector this' = Inr (Some sv, this'))"
  using sparseVector_memoized [of "SparseSystemVector_new 2 (EvIterator \<lparr>remaining = [\<lparr>vector = [js_int 7, js_int 1], eqnums = [2, 2]\<rparr>,
       \<lparr>vector = [js_int 5, js_int 9], eqnums = [0, 1]\<rparr>], pulls = 0\<rparr>)"]
  by (auto simp: SparseSystemVector_new_def)

section \<open>Properties of the shape functions\<close>

lemma length1: "length p = Suc 0 \<Longrightarrow> \<exists>a. p = [a]"
  by (cases p) auto

lemma length2: "length p = 2 \<Longrightarrow> \<exists>a b. p = [a, b]"
  by (auto simp: length_Suc_conv numeral_2_eq_2)

lemma length3: "length p = 3 \<Longrightarrow> \<exists>a b c. p = [a, b, c]"
  by (auto simp: length_Suc_conv numeral_3_eq_3)

lemma L2_rep: "L2_bfun [js_0] = [[js_0_5], [js_0_5]]"
  by code_simp

lemma Q4_rep: "Q4_bfun [js_0, js_0] = [[js_0_25], [js_0_25], [js_0_25], [js_0_25]]"
  by code_simp

lemma H8_rep: "H8_bfun [js_0, js_0, js_0] = [[js_0_125], [js_0_125], [js_0_125], [js_0_125],
                          [js_0_125], [js_0_125], [js_0_125], [js_0_125]]"
  by code_simp

lemma sums_rep: "exact_sum [js_0_5, js_0_5] = Some 1"
  "exact_sum [js_0_25, js_0_25, js_0_25, js_0_25] = Some 1"
  "exact_sum [js_0_125, js_0_125, js_0_125, js_0_125, js_0_125, js_0_125, js_0_125, js_0_125] = Some 1"
  by (simp_all add: js_lits)

lemma exact_sum_None_iff: "exact_sum xs \<noteq> None \<longleftrightarrow> list_all (\<lambda>a. value_of a \<noteq> None) xs"
  by (induction xs) (auto split: option.splits bind_splits)

lemma mag_le_js_1: "mag_le js_1 0"
  by (simp add: mag_le_def js_1_def rval_def)

lemma mag_le_js_0_25: "mag_le js_0_25 (- 2)"
proof -
  have "rval 1 (- 2) = 2 powr (- 2)" by (simp add: rval_def)
  then show ?thesis unfolding mag_le_def js_0_25_def by auto
qed

lemma mag_le_js_0_125: "mag_le js_0_125 (- 3)"
proof -
  have "rval 1 (- 3) = 2 powr (- 3)" by (simp add: rval_def)
  then show ?thesis unfolding mag_le_def js_0_125_def by auto
qed

lemma one_plus_minus:
  assumes "mag_le c 300"
  shows "mag_le (jsub js_1 c) 301" and "mag_le (jadd js_1 c) 301"
proof -
  have one: "mag_le js_1 300" using mag_le_js_1 by (rule mag_le_mono) simp
  show "mag_le (jsub js_1 c) 301"
    using jsub_mag_le [OF one assms] by simp
  show "mag_le (jadd js_1 c) 301"
    using jadd_mag_le [OF one assms] by simp
qed

lemma quarter_entry:
  assumes "mag_le a 301"
  shows "value_of (jmul a js_0_25) \<noteq> None"
  using jmul_mag_le [OF assms mag_le_js_0_25] by (auto dest: mag_le_finite)

lemma eighth_entry:
  assumes "mag_le a 301" and "mag_le b 301"
  shows "value_of (jmul (jmul a b) js_0_125) \<noteq> None"
proof -
  have ab: "mag_le (jmul a b) (301 + 301)"
    using jmul_mag_le [OF assms] by simp
  have "mag_le (jmul (jmul a b) js_0_125) (301 + 301 + (- 3))"
    using jmul_mag_le [OF ab mag_le_js_0_125] by simp
  then show ?thesis by (rule mag_le_finite)
qed

lemma Q4_bfundpar_cols:
  "exact_sum (column (Q4_bfundpar [xi, eta]) 0)
     = (if value_of (jmul (jsub js_1 eta) js_0_25) \<noteq> None \<and> value_of (jmul (jadd js_1 eta) js_0_25) \<noteq> None
        then Some 0 else None)"
  "exact_sum (column (Q4_bfundpar [xi, eta]) 1)
     = (if value_of (jmul (jsub js_1 xi) js_0_25) \<noteq> None \<and> value_of (jmul (jadd js_1 xi) js_0_25) \<noteq> None
        then Some 0 else None)"
  by (auto simp: Q4_bfundpar_def column_def read_num_def nth_opt_def jmul_jneg_left value_of_jneg
        split: option.splits)

lemma H8_bfundpar_cols:
  "exact_sum (column (H8_bfundpar [xi, eta, theta]) 0)
     = (if value_of (jmul (jmul (jsub js_1 eta) (jsub js_1 theta)) js_0_125) \<noteq> None
         \<and> value_of (jmul (jmul (jadd js_1 eta) (jsub js_1 theta)) js_0_125) \<noteq> None
         \<and> value_of (jmul (jmul (jsub js_1 eta) (jadd js_1 theta)) js_0_125) \<noteq> None
         \<and> value_of (jmul (jmul (jadd js_1 eta) (jadd js_1 theta)) js_0_125) \<noteq> None
        then Some 0 else None)"
  "exact_sum (column (H8_bfundpar [xi, eta, theta]) 1)
     = (if value_of (jmul (jmul (jsub js_1 xi) (jsub js_1 theta)) js_0_125) \<noteq> None
         \<and> value_of (jmul (jmul (jadd js_1 xi) (jsub js_1 theta)) js_0_125) \<noteq> None
         \<and> value_of (jmul (jmul (jsub js_1 xi) (jadd js_1 theta)) js_0_125) \<noteq> None
         \<and> value_of (jmul (jmul (jadd js_1 xi) (jadd js_1 theta)) js_0_125) \<noteq> None
        then Some 0 else None)"
  "exact_sum (column (H8_bfundpar [xi, eta, theta]) 2)
     = (if value_of (jmul (jmul (jsub js_1 xi) (jsub js_1 eta)) js_0_125) \<noteq> None
         \<and> value_of (jmul (jmul (jadd js_1 xi) (jsub js_1 eta)) js_0_125) \<noteq> None
         \<and> value_of (jmul (jmul (jadd js_1 xi) (jadd js_1 eta)) js_0_125) \<noteq> None
         \<and> value_of (jmul (jmul (jsub js_1 xi) (jadd js_1 eta)) js_0_125) \<noteq> None
        then Some 0 else None)"
  by (auto simp: H8_bfundpar_def column_def read_num_def nth_opt_def jmul_jneg_left value_of_jneg
        mul_scalar_def transpose_m_def Let_def
        split: option.splits)

lemma prod_err:
  fixes x y u v :: real
  assumes "\<bar>x - u\<bar> \<le> d" and "\<bar>y - v\<bar> \<le> e" and "\<bar>y\<bar> \<le> Y" and "\<bar>u\<bar> \<le> U"
  shows "\<bar>x * y - u * v\<bar> \<le> d * Y + U * e"
proof -
  have "x * y - u * v = (x - u) * y + u * (y - v)" by (simp add: algebra_simps)
  then have "\<bar>x * y - u * v\<bar> \<le> \<bar>(x - u) * y\<bar> + \<bar>u * (y - v)\<bar>"
    by (simp only: abs_triangle_ineq)
  also have "\<dots> = \<bar>x - u\<bar> * \<bar>y\<bar> + \<bar>u\<bar> * \<bar>y - v\<bar>" by (simp only: abs_mult)
  also have "\<dots> \<le> d * Y + U * e"
  proof -
    have "0 \<le> d" "0 \<le> U" using assms by linarith+
    have "\<bar>x - u\<bar> * \<bar>y\<bar> \<le> d * Y" using assms \<open>0 \<le> d\<close> by (intro mult_mono) simp_all
    moreover have "\<bar>u\<bar> * \<bar>y - v\<bar> \<le> U * e" using assms \<open>0 \<le> U\<close> by (intro mult_mono) simp_all
    ultimately show ?thesis by linarith
  qed
  finally show ?thesis .
qed

lemma abs_prod_le:
  fixes x y :: real
  assumes "\<bar>x\<bar> \<le> X" and "\<bar>y\<bar> \<le> Y"
  shows "\<bar>x * y\<bar> \<le> X * Y"
proof -
  have "0 \<le> X" using assms by linarith
  have "\<bar>x\<bar> * \<bar>y\<bar> \<le> X * Y" using assms \<open>0 \<le> X\<close> by (intro mult_mono) simp_all
  then show ?thesis by (simp only: abs_mult)
qed

lemma tri:
  fixes a b c :: real
  shows "\<bar>a - b\<bar> \<le> d \<Longrightarrow> \<bar>b - c\<bar> \<le> e \<Longrightarrow> d + e \<le> f \<Longrightarrow> \<bar>a - c\<bar> \<le> f"
  by linarith

lemma scale_err:
  fixes x u :: real
  assumes "\<bar>x - u\<bar> \<le> e"
  shows "\<bar>k * x - k * u\<bar> \<le> \<bar>k\<bar> * e"
proof -
  have "\<bar>k * x - k * u\<bar> = \<bar>k\<bar> * \<bar>x - u\<bar>"
    by (simp only: right_diff_distrib [symmetric] abs_mult)
  also have "\<dots> \<le> \<bar>k\<bar> * e" using assms by (intro mult_left_mono) simp_all
  finally show ?thesis .
qed

lemma value_of_lits:
  "value_of js_1 = Some 1" "value_of js_0_5 = Some (1 / 2)"
  "value_of js_0_25 = Some (1 / 4)" "value_of js_0_125 = Some (1 / 8)"
  by (simp_all add: js_lits)

lemma mag_le_unit_value:
  assumes "mag_le c 0" and "value_of c = Some x"
  shows "\<bar>x\<bar> \<le> 1"
proof -
  obtain m e where "c = Finite m e" and "\<bar>rval m e\<bar> \<le> 2 powr of_int 0"
    using assms(1) unfolding mag_le_def by blast
  then show ?thesis using assms(2) by (simp add: value_of_rval del: value_of.simps)
qed

lemma mag_le_value: "mag_le c t \<Longrightarrow> \<exists>x. value_of c = Some x"
  unfolding mag_le_def by auto

lemma one_minus_err:
  assumes "mag_le c 0" and "value_of c = Some x"
  shows "\<exists>w. value_of (jsub js_1 c) = Some w \<and> \<bar>w - (1 - x)\<bar> \<le> 1 / 2 ^ 52 \<and> \<bar>w\<bar> \<le> 2"
proof -
  have "\<bar>x\<bar> \<le> 1" using assms by (rule mag_le_unit_value)
  then have "\<bar>1 - x\<bar> \<le> 2 powr of_int 1" by simp
  from jsub_err [OF value_of_lits(1) assms(2) this] show ?thesis by (simp add: powr_neg_numeral)
qed

lemma one_plus_err:
  assumes "mag_le c 0" and "value_of c = Some x"
  shows "\<exists>w. value_of (jadd js_1 c) = Some w \<and> \<bar>w - (1 + x)\<bar> \<le> 1 / 2 ^ 52 \<and> \<bar>w\<bar> \<le> 2"
proof -
  have "\<bar>x\<bar> \<le> 1" using assms by (rule mag_le_unit_value)
  then have "\<bar>1 + x\<bar> \<le> 2 powr of_int 1" by simp
  from jadd_err [OF value_of_lits(1) assms(2) this] show ?thesis by (simp add: powr_neg_numeral)
qed

lemma half_entry_err:
  assumes a: "value_of a = Some wa" and ea: "\<bar>wa - u\<bar> \<le> 1 / 2 ^ 52" and ma: "\<bar>wa\<bar> \<le> 2"
  shows "\<exists>w. value_of (jmul js_0_5 a) = Some w \<and> \<bar>w - u / 2\<bar> \<le> 1 / 2 ^ 52"
proof -
  have "\<bar>1 / 2 * wa\<bar> \<le> 2 powr of_int 0" using ma by simp
  from jmul_err [OF value_of_lits(2) a this]
  obtain w where w: "value_of (jmul js_0_5 a) = Some w" and ew: "\<bar>w - 1 / 2 * wa\<bar> \<le> 2 powr of_int (0 - 53)"
    by auto
  have s: "\<bar>1 / 2 * wa - 1 / 2 * u\<bar> \<le> \<bar>1 / 2\<bar> * (1 / 2 ^ 52)" using ea by (rule scale_err)
  have "\<bar>w - 1 / 2 * u\<bar> \<le> 1 / 2 ^ 52"
    using ew s by (rule tri) (simp add: powr_neg_numeral)
  then show ?thesis using w by simp
qed

lemma quarter_entry_err:
  assumes a: "value_of a = Some wa" and ea: "\<bar>wa - u\<bar> \<le> 1 / 2 ^ 52" and ma: "\<bar>wa\<bar> \<le> 2"
    and b: "value_of b = Some wb" and eb: "\<bar>wb - v\<bar> \<le> 1 / 2 ^ 52" and mb: "\<bar>wb\<bar> \<le> 2"
    and u: "\<bar>u\<bar> \<le> 2"
  shows "\<exists>w. value_of (jmul (jmul js_0_25 a) b) = Some w \<and> \<bar>w - u * v / 4\<bar> \<le> 1 / 2 ^ 51"
proof -
  have "\<bar>1 / 4 * wa\<bar> \<le> 2 powr of_int (- 1)" using ma by (simp add: powr_neg_numeral)
  from jmul_err [OF value_of_lits(3) a this]
  obtain q where q: "value_of (jmul js_0_25 a) = Some q"
    and eq: "\<bar>q - 1 / 4 * wa\<bar> \<le> 2 powr of_int (- 1 - 53)"
    and mq: "\<bar>q\<bar> \<le> 2 powr of_int (- 1)"
    by auto
  have mq': "\<bar>q\<bar> \<le> 1 / 2" using mq by (simp add: powr_neg_numeral)
  have s: "\<bar>1 / 4 * wa - 1 / 4 * u\<bar> \<le> \<bar>1 / 4\<bar> * (1 / 2 ^ 52)" using ea by (rule scale_err)
  have eq': "\<bar>q - 1 / 4 * u\<bar> \<le> 1 / 2 ^ 53"
    using eq s by (rule tri) (simp add: powr_neg_numeral)
  have u4: "\<bar>1 / 4 * u\<bar> \<le> 1 / 2" using u by simp
  have "\<bar>q * wb\<bar> \<le> 1 / 2 * 2" using mq' mb by (rule abs_prod_le)
  then have "\<bar>q * wb\<bar> \<le> 2 powr of_int 0" by simp
  from jmul_err [OF q b this]
  obtain w where w: "value_of (jmul (jmul js_0_25 a) b) = Some w"
    and ew: "\<bar>w - q * wb\<bar> \<le> 2 powr of_int (0 - 53)"
    by auto
  have p: "\<bar>q * wb - 1 / 4 * u * v\<bar> \<le> 1 / 2 ^ 53 * 2 + 1 / 2 * (1 / 2 ^ 52)"
    using eq' eb mb u4 by (rule prod_err)
  have "\<bar>w - 1 / 4 * u * v\<bar> \<le> 1 / 2 ^ 51"
    using ew p by (rule tri) (simp add: powr_neg_numeral)
  then show ?thesis using w by simp
qed

lemma eighth_entry_err:
  assumes a: "value_of a = Some wa" and ea: "\<bar>wa - u\<bar> \<le> 1 / 2 ^ 52" and ma: "\<bar>wa\<bar> \<le> 2"
    and b: "value_of b = Some wb" and eb: "\<bar>wb - v\<bar> \<le> 1 / 2 ^ 52" and mb: "\<bar>wb\<bar> \<le> 2"
    and c: "value_of c = Some wc" and ec: "\<bar>wc - z\<bar> \<le> 1 / 2 ^ 52" and mc: "\<bar>wc\<bar> \<le> 2"
    and u: "\<bar>u\<bar> \<le> 2" and v: "\<bar>v\<bar> \<le> 2"
  shows "\<exists>w. value_of (jmul (jmul (jmul js_0_125 a) b) c) = Some w \<and> \<bar>w - u * v * z / 8\<bar> \<le> 1 / 2 ^ 50"
proof -
  have "\<bar>1 / 8 * wa\<bar> \<le> 2 powr of_int (- 2)" using ma by (simp add: powr_neg_numeral)
  from jmul_err [OF value_of_lits(4) a this]
  obtain q where q: "value_of (jmul js_0_125 a) = Some q"
    and eq: "\<bar>q - 1 / 8 * wa\<bar> \<le> 2 powr of_int (- 2 - 53)"
    and mq: "\<bar>q\<bar> \<le> 2 powr of_int (- 2)"
    by auto
  have mq': "\<bar>q\<bar> \<le> 1 / 4" using mq by (simp add: powr_neg_numeral)
  have s: "\<bar>1 / 8 * wa - 1 / 8 * u\<bar> \<le> \<bar>1 / 8\<bar> * (1 / 2 ^ 52)" using ea by (rule scale_err)
  have eq': "\<bar>q - 1 / 8 * u\<bar> \<le> 1 / 2 ^ 54"
    using eq s by (rule tri) (simp add: powr_neg_numeral)
  have u8: "\<bar>1 / 8 * u\<bar> \<le> 1 / 4" using u by simp
  have "\<bar>q * wb\<bar> \<le> 1 / 4 * 2" using mq' mb by (rule abs_prod_le)
  then have "\<bar>q * wb\<bar> \<le> 2 powr of_int (- 1)" by (simp add: powr_neg_numeral)
  from jmul_err [OF q b this]
  obtain r where r: "value_of (jmul (jmul js_0_125 a) b) = Some r"
    and er: "\<bar>r - q * wb\<bar> \<le> 2 powr of_int (- 1 - 53)"
    and mr: "\<bar>r\<bar> \<le> 2 powr of_int (- 1)"
    by auto
  have mr': "\<bar>r\<bar> \<le> 1 / 2" using mr by (simp add: powr_neg_numeral)
  have p: "\<bar>q * wb - 1 / 8 * u * v\<bar> \<le> 1 / 2 ^ 54 * 2 + 1 / 4 * (1 / 2 ^ 52)"
    using eq' eb mb u8 by (rule prod_err)
  have er': "\<bar>r - 1 / 8 * u * v\<bar> \<le> 1 / 2 ^ 52"
    using er p by (rule tri) (simp add: powr_neg_numeral)
  have "\<bar>1 / 8 * u * v\<bar> \<le> 1 / 4 * 2" using u8 v by (rule abs_prod_le)
  then have uv: "\<bar>1 / 8 * u * v\<bar> \<le> 1 / 2" by simp
  have "\<bar>r * wc\<bar> \<le> 1 / 2 * 2" using mr' mc by (rule abs_prod_le)
  then have "\<bar>r * wc\<bar> \<le> 2 powr of_int 0" by simp
  from jmul_err [OF r c this]
  obtain w where w: "value_of (jmul (jmul (jmul js_0_125 a) b) c) = Some w"
    and ew: "\<bar>w - r * wc\<bar> \<le> 2 powr of_int (0 - 53)"
    by auto
  have p2: "\<bar>r * wc - 1 / 8 * u * v * z\<bar> \<le> 1 / 2 ^ 52 * 2 + 1 / 2 * (1 / 2 ^ 52)"
    using er' ec mc uv by (rule prod_err)
  have "\<bar>w - 1 / 8 * u * v * z\<bar> \<le> 1 / 2 ^ 50"
    using ew p2 by (rule tri) (simp add: powr_neg_numeral)
  then show ?thesis using w by simp
qed

lemma sum2_err:
  fixes w1 w2 :: real
  shows "\<bar>w1 - t1\<bar> \<le> d \<Longrightarrow> \<bar>w2 - t2\<bar> \<le> d \<Longrightarrow> t1 + t2 = c \<Longrightarrow> \<bar>w1 + w2 - c\<bar> \<le> 2 * d"
  by linarith

lemma sum4_err:
  fixes w1 w2 w3 w4 :: real
  shows "\<bar>w1 - t1\<bar> \<le> d \<Longrightarrow> \<bar>w2 - t2\<bar> \<le> d \<Longrightarrow> \<bar>w3 - t3\<bar> \<le> d \<Longrightarrow> \<bar>w4 - t4\<bar> \<le> d
    \<Longrightarrow> t1 + t2 + t3 + t4 = c \<Longrightarrow> \<bar>w1 + (w2 + (w3 + w4)) - c\<bar> \<le> 4 * d"
  by linarith

lemma sum8_err:
  fixes w1 w2 w3 w4 w5 w6 w7 w8 :: real
  shows "\<bar>w1 - t1\<bar> \<le> d \<Longrightarrow> \<bar>w2 - t2\<bar> \<le> d \<Longrightarrow> \<bar>w3 - t3\<bar> \<le> d \<Longrightarrow> \<bar>w4 - t4\<bar> \<le> d
    \<Longrightarrow> \<bar>w5 - t5\<bar> \<le> d \<Longrightarrow> \<bar>w6 - t6\<bar> \<le> d \<Longrightarrow> \<bar>w7 - t7\<bar> \<le> d \<Longrightarrow> \<bar>w8 - t8\<bar> \<le> d
    \<Longrightarrow> t1 + t2 + t3 + t4 + t5 + t6 + t7 + t8 = c
    \<Longrightarrow> \<bar>w1 + (w2 + (w3 + (w4 + (w5 + (w6 + (w7 + w8)))))) - c\<bar> \<le> 8 * d"
  by linarith

lemma L2_sum:
  assumes "mag_le xi 0"
  shows "sum_within (entries (L2_bfun [xi])) 1 (1 / 2 ^ 51)"
proof -
  obtain x where x: "value_of xi = Some x" using mag_le_value [OF assms] by blast
  obtain am where am: "value_of (jsub js_1 xi) = Some am" "\<bar>am - (1 - x)\<bar> \<le> 1 / 2 ^ 52" "\<bar>am\<bar> \<le> 2"
    using one_minus_err [OF assms x] by blast
  obtain ap where ap: "value_of (jadd js_1 xi) = Some ap" "\<bar>ap - (1 + x)\<bar> \<le> 1 / 2 ^ 52" "\<bar>ap\<bar> \<le> 2"
    using one_plus_err [OF assms x] by blast
  obtain w1 where w1: "value_of (jmul js_0_5 (jsub js_1 xi)) = Some w1" "\<bar>w1 - (1 - x) / 2\<bar> \<le> 1 / 2 ^ 52"
    using half_entry_err [OF am] by blast
  obtain w2 where w2: "value_of (jmul js_0_5 (jadd js_1 xi)) = Some w2" "\<bar>w2 - (1 + x) / 2\<bar> \<le> 1 / 2 ^ 52"
    using half_entry_err [OF ap] by blast
  have id: "(1 - x) / 2 + (1 + x) / 2 = 1" by (simp add: field_simps)
  have "\<bar>w1 + w2 - 1\<bar> \<le> 2 * (1 / 2 ^ 52)" using w1(2) w2(2) id by (rule sum2_err)
  then have "\<bar>w1 + w2 - 1\<bar> \<le> 1 / 2 ^ 51" by simp
  moreover have "exact_sum (entries (L2_bfun [xi])) = Some (w1 + w2)"
    by (simp add: L2_bfun_def entries_def read_num_def nth_opt_def w1(1) w2(1))
  ultimately show ?thesis by (simp add: sum_within_def)
qed

lemma Q4_sum:
  assumes xi: "mag_le xi 0" and eta: "mag_le eta 0"
  shows "sum_within (entries (Q4_bfun [xi, eta])) 1 (1 / 2 ^ 49)"
proof -
  obtain x where x: "value_of xi = Some x" using mag_le_value [OF xi] by blast
  obtain y where y: "value_of eta = Some y" using mag_le_value [OF eta] by blast
  have ax: "\<bar>x\<bar> \<le> 1" using xi x by (rule mag_le_unit_value)
  have um: "\<bar>1 - x\<bar> \<le> 2" and up: "\<bar>1 + x\<bar> \<le> 2" using ax by linarith+
  obtain am where am: "value_of (jsub js_1 xi) = Some am" "\<bar>am - (1 - x)\<bar> \<le> 1 / 2 ^ 52" "\<bar>am\<bar> \<le> 2"
    using one_minus_err [OF xi x] by blast
  obtain ap where ap: "value_of (jadd js_1 xi) = Some ap" "\<bar>ap - (1 + x)\<bar> \<le> 1 / 2 ^ 52" "\<bar>ap\<bar> \<le> 2"
    using one_plus_err [OF xi x] by blast
  obtain bm where bm: "value_of (jsub js_1 eta) = Some bm" "\<bar>bm - (1 - y)\<bar> \<le> 1 / 2 ^ 52" "\<bar>bm\<bar> \<le> 2"
    using one_minus_err [OF eta y] by blast
  obtain bp where bp: "value_of (jadd js_1 eta) = Some bp" "\<bar>bp - (1 + y)\<bar> \<le> 1 / 2 ^ 52" "\<bar>bp\<bar> \<le> 2"
    using one_plus_err [OF eta y] by blast
  obtain w1 where w1: "value_of (jmul (jmul js_0_25 (jsub js_1 xi)) (jsub js_1 eta)) = Some w1"
      "\<bar>w1 - (1 - x) * (1 - y) / 4\<bar> \<le> 1 / 2 ^ 51"
    using quarter_entry_err [OF am bm um] by blast
  obtain w2 where w2: "value_of (jmul (jmul js_0_25 (jadd js_1 xi)) (jsub js_1 eta)) = Some w2"
      "\<bar>w2 - (1 + x) * (1 - y) / 4\<bar> \<le> 1 / 2 ^ 51"
    using quarter_entry_err [OF ap bm up] by blast
  obtain w3 where w3: "value_of (jmul (jmul js_0_25 (jadd js_1 xi)) (jadd js_1 eta)) = Some w3"
      "\<bar>w3 - (1 + x) * (1 + y) / 4\<bar> \<le> 1 / 2 ^ 51"
    using quarter_entry_err [OF ap bp up] by blast
  obtain w4 where w4: "value_of (jmul (jmul js_0_25 (jsub js_1 xi)) (jadd js_1 eta)) = Some w4"
      "\<bar>w4 - (1 - x) * (1 + y) / 4\<bar> \<le> 1 / 2 ^ 51"
    using quarter_entry_err [OF am bp um] by blast
  have id: "(1 - x) * (1 - y) / 4 + (1 + x) * (1 - y) / 4 + (1 + x) * (1 + y) / 4 + (1 - x) * (1 + y) / 4 = 1"
    by (simp add: field_simps)
  have "\<bar>w1 + (w2 + (w3 + w4)) - 1\<bar> \<le> 4 * (1 / 2 ^ 51)"
    using w1(2) w2(2) w3(2) w4(2) id by (rule sum4_err)
  then have "\<bar>w1 + (w2 + (w3 + w4)) - 1\<bar> \<le> 1 / 2 ^ 49" by simp
  moreover have "exact_sum (entries (Q4_bfun [xi, eta])) = Some (w1 + (w2 + (w3 + w4)))"
    by (simp add: Q4_bfun_def Let_def entries_def read_num_def nth_opt_def w1(1) w2(1) w3(1) w4(1))
  ultimately show ?thesis by (simp add: sum_within_def)
qed

lemma H8_sum:
  assumes xi: "mag_le xi 0" and eta: "mag_le eta 0" and theta: "mag_le theta 0"
  shows "sum_within (entries (H8_bfun [xi, eta, theta])) 1 (1 / 2 ^ 47)"
proof -
  obtain x where x: "value_of xi = Some x" using mag_le_value [OF xi] by blast
  obtain y where y: "value_of eta = Some y" using mag_le_value [OF eta] by blast
  obtain z where z: "value_of theta = Some z" using mag_le_value [OF theta] by blast
  have ax: "\<bar>x\<bar> \<le> 1" using xi x by (rule mag_le_unit_value)
  have ay: "\<bar>y\<bar> \<le> 1" using eta y by (rule mag_le_unit_value)
  have um: "\<bar>1 - x\<bar> \<le> 2" and up: "\<bar>1 + x\<bar> \<le> 2" using ax by linarith+
  have vm: "\<bar>1 - y\<bar> \<le> 2" and vp: "\<bar>1 + y\<bar> \<le> 2" using ay by linarith+
  obtain am where am: "value_of (jsub js_1 xi) = Some am" "\<bar>am - (1 - x)\<bar> \<le> 1 / 2 ^ 52" "\<bar>am\<bar> \<le> 2"
    using one_minus_err [OF xi x] by blast
  obtain ap where ap: "value_of (jadd js_1 xi) = Some ap" "\<bar>ap - (1 + x)\<bar> \<le> 1 / 2 ^ 52" "\<bar>ap\<bar> \<le> 2"
    using one_plus_err [OF xi x] by blast
  obtain bm where bm: "value_of (jsub js_1 eta) = Some bm" "\<bar>bm - (1 - y)\<bar> \<le> 1 / 2 ^ 52" "\<bar>bm\<bar> \<le> 2"
    using one_minus_err [OF eta y] by blast
  obtain bp where bp: "value_of (jadd js_1 eta) = Some bp" "\<bar>bp - (1 + y)\<bar> \<le> 1 / 2 ^ 52" "\<bar>bp\<bar> \<le> 2"
    using one_plus_err [OF eta y] by blast
  obtain cm where cm: "value_of (jsub js_1 theta) = Some cm" "\<bar>cm - (1 - z)\<bar> \<le> 1 / 2 ^ 52" "\<bar>cm\<bar> \<le> 2"
    using one_minus_err [OF theta z] by blast
  obtain cp where cp: "value_of (jadd js_1 theta) = Some cp" "\<bar>cp - (1 + z)\<bar> \<le> 1 / 2 ^ 52" "\<bar>cp\<bar> \<le> 2"
    using one_plus_err [OF theta z] by blast
  obtain w1 where w1: "value_of (jmul (jmul (jmul js_0_125 (jsub js_1 xi)) (jsub js_1 eta)) (jsub js_1 theta)) = Some w1"
      "\<bar>w1 - (1 - x) * (1 - y) * (1 - z) / 8\<bar> \<le> 1 / 2 ^ 50"
    using eighth_entry_err [OF am bm cm um vm] by blast
  obtain w2 where w2: "value_of (jmul (jmul (jmul js_0_125 (jadd js_1 xi)) (jsub js_1 eta)) (jsub js_1 theta)) = Some w2"
      "\<bar>w2 - (1 + x) * (1 - y) * (1 - z) / 8\<bar> \<le> 1 / 2 ^ 50"
    using eighth_entry_err [OF ap bm cm up vm] by blast
  obtain w3 where w3: "value_of (jmul (jmul (jmul js_0_125 (jadd js_1 xi)) (jadd js_1 eta)) (jsub js_1 theta)) = Some w3"
      "\<bar>w3 - (1 + x) * (1 + y) * (1 - z) / 8\<bar> \<le> 1 / 2 ^ 50"
    using eighth_entry_err [OF ap bp cm up vp] by blast
  obtain w4 where w4: "value_of (jmul (jmul (jmul js_0_125 (jsub js_1 xi)) (jadd js_1 eta)) (jsub js_1 theta)) = Some w4"
      "\<bar>w4 - (1 - x) * (1 + y) * (1 - z) / 8\<bar> \<le> 1 / 2 ^ 50"
    using eighth_entry_err [OF am bp cm um vp] by blast
  obtain w5 where w5: "value_of (jmul (jmul (jmul js_0_125 (jsub js_1 xi)) (jsub js_1 eta)) (jadd js_1 theta)) = Some w5"
      "\<bar>w5 - (1 - x) * (1 - y) * (1 + z) / 8\<bar> \<le> 1 / 2 ^ 50"
    using eighth_entry_err [OF am bm cp um vm] by blast
  obtain w6 where w6: "value_of (jmul (jmul (jmul js_0_125 (jadd js_1 xi)) (jsub js_1 eta)) (jadd js_1 theta)) = Some w6"
      "\<bar>w6 - (1 + x) * (1 - y) * (1 + z) / 8\<bar> \<le> 1 / 2 ^ 50"
    using eighth_entry_err [OF ap bm cp up vm] by blast
  obtain w7 where w7: "value_of (jmul (jmul (jmul js_0_125 (jadd js_1 xi)) (jadd js_1 eta)) (jadd js_1 theta)) = Some w7"
      "\<bar>w7 - (1 + x) * (1 + y) * (1 + z) / 8\<bar> \<le> 1 / 2 ^ 50"
    using eighth_entry_err [OF ap bp cp up vp] by blast
  obtain w8 where w8: "value_of (jmul (jmul (jmul js_0_125 (jsub js_1 xi)) (jadd js_1 eta)) (jadd js_1 theta)) = Some w8"
      "\<bar>w8 - (1 - x) * (1 + y) * (1 + z) / 8\<bar> \<le> 1 / 2 ^ 50"
    using eighth_entry_err [OF am bp cp um vp] by blast
  have id: "(1 - x) * (1 - y) * (1 - z) / 8 + (1 + x) * (1 - y) * (1 - z) / 8
      + (1 + x) * (1 + y) * (1 - z) / 8 + (1 - x) * (1 + y) * (1 - z) / 8
      + (1 - x) * (1 - y) * (1 + z) / 8 + (1 + x) * (1 - y) * (1 + z) / 8
      + (1 + x) * (1 + y) * (1 + z) / 8 + (1 - x) * (1 + y) * (1 + z) / 8 = 1"
    by (simp add: field_simps)
  have "\<bar>w1 + (w2 + (w3 + (w4 + (w5 + (w6 + (w7 + w8)))))) - 1\<bar> \<le> 8 * (1 / 2 ^ 50)"
    using w1(2) w2(2) w3(2) w4(2) w5(2) w6(2) w7(2) w8(2) id by (rule sum8_err)
  then have "\<bar>w1 + (w2 + (w3 + (w4 + (w5 + (w6 + (w7 + w8)))))) - 1\<bar> \<le> 1 / 2 ^ 47" by simp
  moreover have "exact_sum (entries (H8_bfun [xi, eta, theta]))
      = Some (w1 + (w2 + (w3 + (w4 + (w5 + (w6 + (w7 + w8)))))))"
    by (simp add: H8_bfun_def Let_def entries_def read_num_def nth_opt_def
        w1(1) w2(1) w3(1) w4(1) w5(1) w6(1) w7(1) w8(1))
  ultimately show ?thesis by (simp add: sum_within_def)
qed

text \<open>
  Claim C4, as amended. At the representative points the entries of \<open>bfun\<close> are exact and
  sum to exactly 1: L2 at 0 gives \<open>[0.5, 0.5]\<close>, Q4 at \<open>(0,0)\<close> four entries 0.25 and
  H8 at \<open>(0,0,0)\<close> eight entries 0.125. At every point of the reference element, with
  as many coordinates as the element has dimensions, each a finite double of magnitude
  at most 1, the entries of \<open>bfun(p)\<close> are finite doubles and their exact sum is 1 up to
  rounding: within \<open>2^-51\<close> of 1 for L2, \<open>2^-49\<close> for Q4 and \<open>2^-47\<close> for H8.
\<close>

theorem bfun_partition_of_unity:
  "L2_bfun [js_0] = [[js_0_5], [js_0_5]]
 \<and> exact_sum (entries (L2_bfun [js_0])) = Some 1
 \<and> Q4_bfun [js_0, js_0] = [[js_0_25], [js_0_25], [js_0_25], [js_0_25]]
 \<and> exact_sum (entries (Q4_bfun [js_0, js_0])) = Some 1
 \<and> H8_bfun [js_0, js_0, js_0] = [[js_0_125], [js_0_125], [js_0_125], [js_0_125],
                                  [js_0_125], [js_0_125], [js_0_125], [js_0_125]]
 \<and> exact_sum (entries (H8_bfun [js_0, js_0, js_0])) = Some 1
 \<and> (length p1 = 1 \<and> list_all (\<lambda>c. mag_le c 0) p1 \<longrightarrow>
      sum_within (entries (L2_bfun p1)) 1 (1 / 2 ^ 51))
 \<and> (length p2 = 2 \<and> list_all (\<lambda>c. mag_le c 0) p2 \<longrightarrow>
      sum_within (entries (Q4_bfun p2)) 1 (1 / 2 ^ 49))
 \<and> (length p3 = 3 \<and> list_all (\<lambda>c. mag_le c 0) p3 \<longrightarrow>
      sum_within (entries (H8_bfun p3)) 1 (1 / 2 ^ 47))"
proof (intro conjI impI)
  show "L2_bfun [js_0] = [[js_0_5], [js_0_5]]" by (rule L2_rep)
  show "exact_sum (entries (L2_bfun [js_0])) = Some 1"
    by (simp add: L2_rep entries_def sums_rep del: exact_sum.simps)
  show "Q4_bfun [js_0, js_0] = [[js_0_25], [js_0_25], [js_0_25], [js_0_25]]" by (rule Q4_rep)
  show "exact_sum (entries (Q4_bfun [js_0, js_0])) = Some 1"
    by (simp add: Q4_rep entries_def sums_rep del: exact_sum.simps)
  show "H8_bfun [js_0, js_0, js_0] = [[js_0_125], [js_0_125], [js_0_125], [js_0_125],
                                  [js_0_125], [js_0_125], [js_0_125], [js_0_125]]" by (rule H8_rep)
  show "exact_sum (entries (H8_bfun [js_0, js_0, js_0])) = Some 1"
    by (simp add: H8_rep entries_def sums_rep del: exact_sum.simps)
next
  assume a: "length p1 = 1 \<and> list_all (\<lambda>c. mag_le c 0) p1"
  then obtain xi where p: "p1 = [xi]" using length1 [of p1] by auto
  then have "mag_le xi 0" using a by simp
  then show "sum_within (entries (L2_bfun p1)) 1 (1 / 2 ^ 51)" unfolding p by (rule L2_sum)
next
  assume a: "length p2 = 2 \<and> list_all (\<lambda>c. mag_le c 0) p2"
  then obtain xi eta where p: "p2 = [xi, eta]" using length2 [of p2] by auto
  then have "mag_le xi 0" "mag_le eta 0" using a by simp_all
  then show "sum_within (entries (Q4_bfun p2)) 1 (1 / 2 ^ 49)" unfolding p by (rule Q4_sum)
next
  assume a: "length p3 = 3 \<and> list_all (\<lambda>c. mag_le c 0) p3"
  then obtain xi eta theta where p: "p3 = [xi, eta, theta]" using length3 [of p3] by auto
  then have "mag_le xi 0" "mag_le eta 0" "mag_le theta 0" using a by simp_all
  then show "sum_within (entries (H8_bfun p3)) 1 (1 / 2 ^ 47)" unfolding p by (rule H8_sum)
qed

text \<open>The witness is taken at \<open>0.1\<close>, the double \<open>3602879701896397 * 2^-55\<close>, and at the
  Gauss point \<open>1/\<surd>3\<close>, the double \<open>1300077228592327 * 2^-51\<close>.\<close>

theorem bfun_partition_of_unity_witness:
  "sum_within (entries (L2_bfun [Finite 3602879701896397 (- 55)])) 1 (1 / 2 ^ 51)
 \<and> sum_within (entries (Q4_bfun [Finite 3602879701896397 (- 55), Finite 3602879701896397 (- 55)]))
      1 (1 / 2 ^ 49)
 \<and> sum_within (entries (H8_bfun [Finite 1300077228592327 (- 51), Finite 1300077228592327 (- 51),
      Finite 1300077228592327 (- 51)])) 1 (1 / 2 ^ 47)"
proof -
  have a: "mag_le (Finite 3602879701896397 (- 55)) 0" by (rule mag_le_unit0) simp_all
  have b: "mag_le (Finite 1300077228592327 (- 51)) 0" by (rule mag_le_unit0) simp_all
  show ?thesis
    using bfun_partition_of_unity [of "[Finite 3602879701896397 (- 55)]"
        "[Finite 3602879701896397 (- 55), Finite 3602879701896397 (- 55)]"
        "[Finite 1300077228592327 (- 51), Finite 1300077228592327 (- 51), Finite 1300077228592327 (- 51)]"]
      a b
    by simp
qed

text \<open>
  Claim C4 as stated fails: the sum is not exactly 1. At \<open>(0.1, 0.1)\<close>, where 0.1 is the
  double \<open>3602879701896397 * 2^-55\<close>, the four entries of \<open>Q4.bfun\<close> are rounded
  products whose exact sum is \<open>1 + 2^-53\<close>; added in double arithmetic they give
  \<open>1 + 2^-52\<close>.
\<close>

theorem bfun_partition_of_unity_counterexample:
  "Q4_bfun [Finite 3602879701896397 (- 55), Finite 3602879701896397 (- 55)]
     = [[Finite 1823957849085051 (- 53)], [Finite 8917127262193583 (- 55)],
        [Finite 5449355549118301 (- 54)], [Finite 8917127262193583 (- 55)]]
 \<and> exact_sum (entries (Q4_bfun [Finite 3602879701896397 (- 55), Finite 3602879701896397 (- 55)]))
     = Some (1 + 1 / 2 ^ 53)
 \<and> exact_sum (entries (Q4_bfun [Finite 3602879701896397 (- 55), Finite 3602879701896397 (- 55)]))
     \<noteq> Some 1
 \<and> double_sum (entries (Q4_bfun [Finite 3602879701896397 (- 55), Finite 3602879701896397 (- 55)]))
     = Finite 4503599627370497 (- 52)"
proof -
  have v: "Q4_bfun [Finite 3602879701896397 (- 55), Finite 3602879701896397 (- 55)]
     = [[Finite 1823957849085051 (- 53)], [Finite 8917127262193583 (- 55)],
        [Finite 5449355549118301 (- 54)], [Finite 8917127262193583 (- 55)]]"
    by code_simp
  have d: "double_sum [Finite 1823957849085051 (- 53), Finite 8917127262193583 (- 55),
      Finite 5449355549118301 (- 54), Finite 8917127262193583 (- 55)] = Finite 4503599627370497 (- 52)"
    by code_simp
  show ?thesis
    unfolding v entries_def using d by simp
qed

text \<open>
  Claim C5. For L2, Q4 and H8 and every parametric point with as many coordinates as
  the element has dimensions, the coordinates finite and of magnitude at most \<open>2^300\<close>
  (the reference element lies within), \<open>bfundpar(p)\<close> has \<open>cellSize\<close> rows of \<open>dim\<close>
  entries, all of them finite doubles, and the entries of each column sum to exactly 0:
  they come in pairs \<open>v\<close>, \<open>-v\<close> of the same rounded value.
\<close>

theorem bfundpar_columns_sum_to_zero:
  "(length p1 = 1 \<longrightarrow>
      length (L2_bfundpar p1) = 2 \<and> list_all (\<lambda>row. length row = 1) (L2_bfundpar p1)
    \<and> exact_sum (column (L2_bfundpar p1) 0) = Some 0)
 \<and> (length p2 = 2 \<and> list_all (\<lambda>c. mag_le c 300) p2 \<longrightarrow>
      length (Q4_bfundpar p2) = 4 \<and> list_all (\<lambda>row. length row = 2) (Q4_bfundpar p2)
    \<and> exact_sum (column (Q4_bfundpar p2) 0) = Some 0
    \<and> exact_sum (column (Q4_bfundpar p2) 1) = Some 0)
 \<and> (length p3 = 3 \<and> list_all (\<lambda>c. mag_le c 300) p3 \<longrightarrow>
      length (H8_bfundpar p3) = 8 \<and> list_all (\<lambda>row. length row = 3) (H8_bfundpar p3)
    \<and> exact_sum (column (H8_bfundpar p3) 0) = Some 0
    \<and> exact_sum (column (H8_bfundpar p3) 1) = Some 0
    \<and> exact_sum (column (H8_bfundpar p3) 2) = Some 0)"
proof (intro conjI impI)
  show "length (L2_bfundpar p1) = 2" "list_all (\<lambda>row. length row = 1) (L2_bfundpar p1)"
    by (simp_all add: L2_bfundpar_def)
  show "exact_sum (column (L2_bfundpar p1) 0) = Some 0"
    by (simp add: L2_bfundpar_def column_def read_num_def nth_opt_def js_0_5_def)
next
  show "length (Q4_bfundpar p2) = 4" "list_all (\<lambda>row. length row = 2) (Q4_bfundpar p2)"
    by (simp_all add: Q4_bfundpar_def Let_def)
  assume a: "length p2 = 2 \<and> list_all (\<lambda>c. mag_le c 300) p2"
  then obtain xi eta where p: "p2 = [xi, eta]" using length2 [of p2] by auto
  then have "mag_le xi 300" "mag_le eta 300" using a by simp_all
  then have f: "value_of (jmul (jsub js_1 xi) js_0_25) \<noteq> None"
      "value_of (jmul (jadd js_1 xi) js_0_25) \<noteq> None"
      "value_of (jmul (jsub js_1 eta) js_0_25) \<noteq> None"
      "value_of (jmul (jadd js_1 eta) js_0_25) \<noteq> None"
    by (simp_all only: quarter_entry one_plus_minus not_False_eq_True)
  show "exact_sum (column (Q4_bfundpar p2) 0) = Some 0" "exact_sum (column (Q4_bfundpar p2) 1) = Some 0"
    unfolding p using f by (simp_all only: Q4_bfundpar_cols simp_thms if_True)
next
  show "length (H8_bfundpar p3) = 8" "list_all (\<lambda>row. length row = 3) (H8_bfundpar p3)"
    by (simp_all add: H8_bfundpar_def Let_def mul_scalar_def transpose_m_def)
  assume a: "length p3 = 3 \<and> list_all (\<lambda>c. mag_le c 300) p3"
  then obtain xi eta theta where p: "p3 = [xi, eta, theta]" using length3 [of p3] by auto
  then have "mag_le xi 300" "mag_le eta 300" "mag_le theta 300" using a by simp_all
  then have b: "mag_le (jsub js_1 xi) 301" "mag_le (jadd js_1 xi) 301"
      "mag_le (jsub js_1 eta) 301" "mag_le (jadd js_1 eta) 301"
      "mag_le (jsub js_1 theta) 301" "mag_le (jadd js_1 theta) 301"
    by (simp_all only: one_plus_minus)
  show "exact_sum (column (H8_bfundpar p3) 0) = Some 0" "exact_sum (column (H8_bfundpar p3) 1) = Some 0"
      "exact_sum (column (H8_bfundpar p3) 2) = Some 0"
    unfolding p using b by (simp_all only: H8_bfundpar_cols eighth_entry simp_thms if_True)
qed

text \<open>The witness is taken at \<open>0.1\<close> and at the Gauss point \<open>1/\<surd>3\<close>, the double
  \<open>1300077228592327 * 2^-51\<close>, where the same columns added in double arithmetic do not
  all give 0.\<close>

theorem bfundpar_columns_sum_to_zero_witness:
  "exact_sum (column (L2_bfundpar [Finite 3602879701896397 (- 55)]) 0) = Some 0
 \<and> length (Q4_bfundpar [Finite 3602879701896397 (- 55), Finite 3602879701896397 (- 55)]) = 4
 \<and> exact_sum (column (Q4_bfundpar [Finite 3602879701896397 (- 55), Finite 3602879701896397 (- 55)]) 1) = Some 0
 \<and> length (H8_bfundpar [Finite 1300077228592327 (- 51), Finite 1300077228592327 (- 51),
      Finite 1300077228592327 (- 51)]) = 8
 \<and> exact_sum (column (H8_bfundpar [Finite 1300077228592327 (- 51), Finite 1300077228592327 (- 51),
      Finite 1300077228592327 (- 51)]) 2) = Some 0"
proof -
  have a: "mag_le (Finite 3602879701896397 (- 55)) 300" by (rule mag_le_unit) simp_all
  have b: "mag_le (Finite 1300077228592327 (- 51)) 300" by (rule mag_le_unit) simp_all
  show ?thesis
    using bfundpar_columns_sum_to_zero [of "[Finite 3602879701896397 (- 55)]"
        "[Finite 3602879701896397 (- 55), Finite 3602879701896397 (- 55)]"
        "[Finite 1300077228592327 (- 51), Finite 1300077228592327 (- 51), Finite 1300077228592327 (- 51)]"]
      a b
    by simp
qed

section \<open>Properties of the Jacobians\<close>

lemma size_m_rows: "nth_opt (size_m J) 0 = Some (length J)"
  by (cases J) (simp_all add: size_m_def nth_opt_def)

lemma size_m_cols: "nth_opt (size_m J) (Suc 0) = (case J of [] \<Rightarrow> None | r # _ \<Rightarrow> Some (length r))"
  by (cases J) (simp_all add: size_m_def nth_opt_def)

lemma entry_in: "i < length J \<Longrightarrow> j < length (J ! i) \<Longrightarrow> entry J i j = Some (J ! i ! j)"
  by (simp add: entry_def nth_opt_def)

lemma cross_norm:
  "GCellSetManifold2_jacobianSurface skewmat3 this conn N [[a1, b1], [a2, b2], [a3, b3]] x
     = Inr (Some (sqrt ((a2 * b3 - a3 * b2)\<^sup>2 + (a3 * b1 - a1 * b3)\<^sup>2 + (a1 * b2 - a2 * b1)\<^sup>2)))"
  by (simp add: GCellSetManifold2_jacobianSurface_def size_m_def nth_opt_def skewmat3_def nthColumn_def
        bindE_def dot_mv_def dot_vv_def norm_v_def power2_eq_square algebra_simps)


text \<open>
  Claim C7. For a Jacobian matrix \<open>J\<close> of two columns, \<open>jacobianSurface\<close> of a
  manifold-2 set returns \<open>J[0][0]*J[1][1] - J[1][0]*J[0][1]\<close> when \<open>J\<close> has two rows,
  and otherwise the Euclidean norm of the skew-symmetric matrix of the first column
  applied to the second column. For a matrix whose number of columns is not two it
  throws.
\<close>

theorem Manifold2_jacobianSurface:
  "(J \<noteq> [] \<and> (\<forall>row\<in>set J. length row = 2) \<longrightarrow>
      (length J = 2 \<longrightarrow>
         GCellSetManifold2_jacobianSurface skewmat this conn N J x
           = Inr (Some (J ! 0 ! 0 * J ! 1 ! 1 - J ! 1 ! 0 * J ! 0 ! 1)))
    \<and> (length J \<noteq> 2 \<longrightarrow>
         GCellSetManifold2_jacobianSurface skewmat this conn N J x
           = bindE (skewmat (nthColumn J 0)) (\<lambda>S. Inr (Some (norm_v (dot_mv S (nthColumn J 1)))))))
 \<and> (J = [] \<or> length (hd J) \<noteq> 2 \<longrightarrow>
      GCellSetManifold2_jacobianSurface skewmat this conn N J x
        = Inl (Fatal ''GCellSetManifold2::jacobianSurface(): is not implemented when ntan is not 2''))"
proof (intro conjI impI)
  assume J: "J \<noteq> [] \<and> (\<forall>row\<in>set J. length row = 2)"
  then have cols: "nth_opt (size_m J) 1 = Some 2"
    by (cases J) (simp_all add: size_m_cols)
  {
    assume two: "length J = 2"
    then have "length (J ! 0) = 2" "length (J ! 1) = 2" using J by simp_all
    then have "entry J 0 0 = Some (J ! 0 ! 0)" "entry J 1 1 = Some (J ! 1 ! 1)"
        "entry J 1 0 = Some (J ! 1 ! 0)" "entry J 0 1 = Some (J ! 0 ! 1)"
      using two by (simp_all add: entry_in)
    then show "GCellSetManifold2_jacobianSurface skewmat this conn N J x
           = Inr (Some (J ! 0 ! 0 * J ! 1 ! 1 - J ! 1 ! 0 * J ! 0 ! 1))"
      using cols two by (simp add: GCellSetManifold2_jacobianSurface_def size_m_rows nsub_def nmul_def)
  }
  {
    assume "length J \<noteq> 2"
    then show "GCellSetManifold2_jacobianSurface skewmat this conn N J x
           = bindE (skewmat (nthColumn J 0)) (\<lambda>S. Inr (Some (norm_v (dot_mv S (nthColumn J 1)))))"
      using cols by (simp add: GCellSetManifold2_jacobianSurface_def size_m_rows)
  }
next
  assume "J = [] \<or> length (hd J) \<noteq> 2"
  then have "nth_opt (size_m J) 1 \<noteq> Some 2"
    by (cases J) (simp_all add: size_m_cols)
  then show "GCellSetManifold2_jacobianSurface skewmat this conn N J x
        = Inl (Fatal ''GCellSetManifold2::jacobianSurface(): is not implemented when ntan is not 2'')"
    by (simp add: GCellSetManifold2_jacobianSurface_def)
qed

theorem Manifold2_jacobianSurface_witness:
  "GCellSetManifold2_jacobianSurface skewmat3 (sample_gcellset Q4 False (Scalar 1)) [0, 1, 2, 3]
      sample_N [[1, 2], [3, 4]] sample_x = Inr (Some (- 2))
 \<and> GCellSetManifold2_jacobianSurface skewmat3 (sample_gcellset Q4 False (Scalar 1)) [0, 1, 2, 3]
      sample_N [[1, 0], [0, 1], [0, 0]] sample_x = Inr (Some 1)
 \<and> GCellSetManifold2_jacobianSurface skewmat3 (sample_gcellset Q4 False (Scalar 1)) [0, 1, 2, 3]
      sample_N [[1, 2, 3], [4, 5, 6]] sample_x
      = Inl (Fatal ''GCellSetManifold2::jacobianSurface(): is not implemented when ntan is not 2'')"
  using Manifold2_jacobianSurface [of "[[1, 2], [3, 4]]" skewmat3 "sample_gcellset Q4 False (Scalar 1)"
          "[0, 1, 2, 3]" sample_N sample_x]
        Manifold2_jacobianSurface [of "[[1, 0], [0, 1], [0, 0]]" skewmat3 "sample_gcellset Q4 False (Scalar 1)"
          "[0, 1, 2, 3]" sample_N sample_x]
        Manifold2_jacobianSurface [of "[[1, 2, 3], [4, 5, 6]]" skewmat3 "sample_gcellset Q4 False (Scalar 1)"
          "[0, 1, 2, 3]" sample_N sample_x]
  by (simp add: skewmat3_def nthColumn_def bindE_def dot_mv_def dot_vv_def norm_v_def)

text \<open>
  Claim C3. \<open>jacobianVolumn\<close> of a manifold-3 set tests the number of rows of \<open>J\<close>, not
  the number of its columns: it returns \<open>det(J)\<close> for every matrix of three rows, so
  also for one of three rows and two columns, and throws for a matrix of two rows and
  three columns.
\<close>

theorem Manifold3_jacobianVolumn_rows:
  "GCellSetManifold3_jacobianVolumn det this conn N J x
     = (if length J = 3 then Inr (Some (det J))
        else Inl (Fatal ''GCellSetManifold3#jacobianVolumn(): incorrect size of tangents.''))
   \<and> GCellSetManifold3_jacobianVolumn det this conn N [[1, 0], [0, 1], [0, 0]] x
     = Inr (Some (det [[1, 0], [0, 1], [0, 0]]))
   \<and> GCellSetManifold3_jacobianVolumn det this conn N [[1, 0, 0], [0, 1, 0]] x
     = Inl (Fatal ''GCellSetManifold3#jacobianVolumn(): incorrect size of tangents.'')"
  by (simp add: GCellSetManifold3_jacobianVolumn_def size_m_rows)




section \<open>Properties of the constructors and of equality\<close>

lemma GCellSet_new_Is:
  assumes "opt_topology opts = Is t"
  shows "GCellSet_new ct newid (Some opts) =
     (if getCellSizeInDim t (getDim t) \<noteq> cellSize ct
      then Inl (Fatal ''GCellSet(): cellSize of the topology dismatch.'')
      else if getDim t \<noteq> dim_cell ct
      then Inl (Fatal ''GCellSet(): dim of the topology dismatch.'')
      else Inr \<lparr>celltype_of = ct,
                f_axisSymm = (case opt_axisSymm opts of Some b \<Rightarrow> b | None \<Rightarrow> False),
                f_otherDimension = (case opt_otherDimension opts of Some d \<Rightarrow> d | None \<Rightarrow> Scalar 1),
                f_id = newid, f_topology = t\<rparr>)"
  using assms by (auto simp: GCellSet_new_def Let_def split: option.splits)

lemma opt_topology_same: "opt_topology opts = Is t \<Longrightarrow> opts\<lparr>opt_topology := Is t\<rparr> = opts"
  by (cases opts) simp

lemma new_effective:
  assumes "(opt_conn opts = None \<and> opt_topology opts = Is t)
         \<or> (\<exists>conn. opt_conn opts = Some conn \<and> hypercube conn (dim_cell ct) = Inr t)"
  shows "new hypercube ct newid (Some opts) = GCellSet_new ct newid (Some (opts\<lparr>opt_topology := Is t\<rparr>))"
  using assms by (auto simp: new_def opt_topology_same)

text \<open>
  Claim C9. A concrete GCellSet is constructed over a topology, given in the options or
  built from a connectivity. When the cell size of the topology in its own dimension
  differs from the type's \<open>cellSize()\<close>, or its dimension from the type's \<open>dim()\<close>, the
  constructor throws and there is no instance; when both agree it returns an instance
  that holds the topology.
\<close>

theorem construction_checks_topology:
  assumes "(opt_conn opts = None \<and> opt_topology opts = Is t)
         \<or> (\<exists>conn. opt_conn opts = Some conn \<and> hypercube conn (dim_cell ct) = Inr t)"
  shows "(getCellSizeInDim t (getDim t) \<noteq> cellSize ct \<or> getDim t \<noteq> dim_cell ct
            \<longrightarrow> (\<exists>msg. new hypercube ct newid (Some opts) = Inl (Fatal msg)))
       \<and> (getCellSizeInDim t (getDim t) = cellSize ct \<and> getDim t = dim_cell ct
            \<longrightarrow> (\<exists>g. new hypercube ct newid (Some opts) = Inr g
                      \<and> f_topology g = t \<and> celltype_of g = ct \<and> f_id g = newid))"
proof -
  have "new hypercube ct newid (Some opts) = GCellSet_new ct newid (Some (opts\<lparr>opt_topology := Is t\<rparr>))"
    using assms by (rule new_effective)
  then show ?thesis
    by (auto simp: GCellSet_new_Is)
qed

theorem construction_checks_topology_witness:
  "(\<exists>msg. new sample_hypercube Q4 ''id''
       (Some \<lparr>opt_topology = Is (sample_topology 1 [[0, 1]]), opt_conn = None,
              opt_otherDimension = None, opt_axisSymm = None\<rparr>) = Inl (Fatal msg))
 \<and> (\<exists>g. new sample_hypercube L2 ''id''
       (Some \<lparr>opt_topology = Is (sample_topology 1 [[0, 1]]), opt_conn = None,
              opt_otherDimension = None, opt_axisSymm = None\<rparr>) = Inr g
        \<and> f_topology g = sample_topology 1 [[0, 1]])"
  using construction_checks_topology [of "\<lparr>opt_topology = Is (sample_topology 1 [[0, 1]]), opt_conn = None,
              opt_otherDimension = None, opt_axisSymm = None\<rparr>" "sample_topology 1 [[0, 1]]"
              sample_hypercube Q4 "''id''"]
        construction_checks_topology [of "\<lparr>opt_topology = Is (sample_topology 1 [[0, 1]]), opt_conn = None,
              opt_otherDimension = None, opt_axisSymm = None\<rparr>" "sample_topology 1 [[0, 1]]"
              sample_hypercube L2 "''id''"]
  by (auto simp: sample_topology_def)

text \<open>
  Claim C10, as amended. \<open>equals(other)\<close> is false for an argument that is not a
  GCellSet. For a GCellSet it is true exactly when both have the same \<open>type()\<close>, the same
  \<open>cellSize()\<close>, the same axial symmetry flag, the same value of \<open>otherDimension()\<close>
  called without arguments (a function-valued other dimension is applied to
  \<open>undefined\<close> arguments and the returned values are compared, not the functions), and
  equal normalised topologies.
\<close>

theorem equals_compares:
  "equals normalized topology_equals this None = False
 \<and> (equals normalized topology_equals this (Some other) = True \<longleftrightarrow>
      type_name (celltype_of this) = type_name (celltype_of other)
    \<and> cellSize (celltype_of this) = cellSize (celltype_of other)
    \<and> axisSymm this = axisSymm other
    \<and> otherDimension this None None None = otherDimension other None None None
    \<and> topology_equals (normalized (f_topology this)) (normalized (f_topology other)))"
  by (auto simp: equals_def)

theorem equals_compares_witness:
  "equals (\<lambda>t. t) (\<lambda>a b. getDim a = getDim b \<and> getMaxCells a = getMaxCells b)
     (sample_gcellset L2 False (Scalar 2)) (Some (sample_gcellset L2 False (Function (\<lambda>conn N x. 2)))) = True
 \<and> equals (\<lambda>t. t) (\<lambda>a b. getDim a = getDim b \<and> getMaxCells a = getMaxCells b)
     (sample_gcellset L2 False (Scalar 2)) (Some (sample_gcellset L2 True (Scalar 2))) = False
 \<and> equals (\<lambda>t. t) (\<lambda>a b. getDim a = getDim b \<and> getMaxCells a = getMaxCells b)
     (sample_gcellset L2 False (Scalar 2)) None = False"
  using equals_compares [of "\<lambda>t. t" "\<lambda>a b. getDim a = getDim b \<and> getMaxCells a = getMaxCells b"
          "sample_gcellset L2 False (Scalar 2)" "sample_gcellset L2 False (Function (\<lambda>conn N x. 2))"]
        equals_compares [of "\<lambda>t. t" "\<lambda>a b. getDim a = getDim b \<and> getMaxCells a = getMaxCells b"
          "sample_gcellset L2 False (Scalar 2)" "sample_gcellset L2 True (Scalar 2)"]
  by (simp add: sample_gcellset_def axisSymm_def otherDimension_def)

text \<open>
  Claim C10 as stated fails for function-valued other dimensions: two sets whose
  functions differ (they return 2 and 3 for a connectivity) are equal for \<open>equals\<close>,
  because both functions return 2 when called without arguments.
\<close>

theorem equals_function_counterexample:
  "equals (\<lambda>t. t) (\<lambda>a b. getDim a = getDim b \<and> getMaxCells a = getMaxCells b)
     (sample_gcellset L2 False (Function (\<lambda>conn N x. 2)))
     (Some (sample_gcellset L2 False (Function (\<lambda>conn N x. case conn of None \<Rightarrow> 2 | Some c \<Rightarrow> 3))))
   = True
 \<and> otherDimension (sample_gcellset L2 False (Function (\<lambda>conn N x. 2))) (Some [0, 1]) None None = 2
 \<and> otherDimension (sample_gcellset L2 False (Function (\<lambda>conn N x. case conn of None \<Rightarrow> 2 | Some c \<Rightarrow> 3)))
      (Some [0, 1]) None None = 3
 \<and> f_otherDimension (sample_gcellset L2 False (Function (\<lambda>conn N x. 2)))
   \<noteq> f_otherDimension (sample_gcellset L2 False (Function (\<lambda>conn N x. case conn of None \<Rightarrow> 2 | Some c \<Rightarrow> 3)))"
proof -
  have "(\<lambda>conn N x. 2 :: real) \<noteq> (\<lambda>(conn :: int list option) (N :: matrix option) (x :: matrix option).
            case conn of None \<Rightarrow> 2 | Some c \<Rightarrow> 3)"
  proof
    assume "(\<lambda>conn N x. 2 :: real) = (\<lambda>(conn :: int list option) (N :: matrix option) (x :: matrix option).
            case conn of None \<Rightarrow> 2 | Some c \<Rightarrow> 3)"
    then have "(\<lambda>conn N x. 2 :: real) (Some [0, 1]) None None
        = (\<lambda>(conn :: int list option) (N :: matrix option) (x :: matrix option).
            case conn of None \<Rightarrow> 2 | Some c \<Rightarrow> 3) (Some [0, 1]) None None"
      by (rule arg_cong)
    then show False by simp
  qed
  then show ?thesis
    by (simp add: equals_def sample_gcellset_def axisSymm_def otherDimension_def)
qed

end
